theory Spec2Isabelle
  imports Complex_Main
begin

section \<open>Data model of App.js\<close>

text \<open>
  A square holds the string "X", the string "O" or null.  The two strings are the
  markers; the constructor names carry a prefix because \<open>O\<close> is taken by relation
  composition.
\<close>

datatype marker = mX | mO

text \<open>
  One slot of a JavaScript array whose elements are values or null.  \<open>Hole\<close> is an index
  below \<open>length\<close> that was never written: it reads as undefined, and the iteration
  methods (\<open>every\<close>, \<open>map\<close>, \<open>filter\<close>) skip it.
\<close>

datatype 'a slot = Hole | Null | Val 'a

text \<open>
  The board array.  \<open>cells\<close> are the indexed elements \<open>0 .. length - 1\<close>;
  \<open>named\<close> are the properties that an assignment \<open>squares[index] = v\<close> creates when
  \<open>index\<close> is an integer that is not an array index (negative, or above \<open>2^32 - 2\<close>).
\<close>

record jsarray =
  cells :: "marker slot list"
  named :: "(int \<times> marker) list"

text \<open>mode: "2p" or "cpu".\<close>

datatype mode = TwoP | Cpu

text \<open>The six \<open>useState\<close> variables of \<open>App\<close>.\<close>

record session =
  mode :: mode
  board :: jsarray
  xIsNext :: bool
  winner :: "marker option"
  winningLine :: "nat list"
  draw :: bool

text \<open>What the status bar shows: \<open>if (winner) ... else if (draw) ... else ...\<close>.\<close>

datatype result = InProgress | Win marker "nat list" | Draw

definition gameResult :: "session \<Rightarrow> result" where
  "gameResult s =
     (case winner s of
        Some w \<Rightarrow> Win w (winningLine s)
      | None \<Rightarrow> if draw s then Draw else InProgress)"

section \<open>Array operations\<close>

text \<open>\<open>!!v\<close>: the non-empty strings are truthy, null and undefined are not.\<close>

fun truthy :: "'a slot \<Rightarrow> bool" where
  "truthy (Val v) = True"
| "truthy Null = False"
| "truthy Hole = False"

text \<open>
  An integer is an array index when it lies in \<open>0 .. 2^32 - 2\<close>; any other integer used
  in \<open>squares[i]\<close> is a property name.
\<close>

definition isIndex :: "int \<Rightarrow> bool" where
  "isIndex i \<longleftrightarrow> 0 \<le> i \<and> i < 4294967295"

text \<open>\<open>squares[i]\<close>: undefined (read as \<open>Hole\<close>) where nothing was stored.\<close>

definition getAt :: "jsarray \<Rightarrow> int \<Rightarrow> marker slot" where
  "getAt a i =
     (if isIndex i then
        (if nat i < length (cells a) then cells a ! nat i else Hole)
      else case map_of (named a) i of Some m \<Rightarrow> Val m | None \<Rightarrow> Hole)"

text \<open>
  \<open>squares[i] = m\<close>: inside the array it overwrites, beyond its end it extends the array
  and leaves holes, and for an integer that is not an array index it sets a property.
\<close>

definition put :: "jsarray \<Rightarrow> int \<Rightarrow> marker \<Rightarrow> jsarray" where
  "put a i m =
     (if isIndex i then
        (if nat i < length (cells a) then a\<lparr>cells := (cells a)[nat i := Val m]\<rparr>
         else a\<lparr>cells := cells a @ replicate (nat i - length (cells a)) Hole @ [Val m]\<rparr>)
      else a\<lparr>named := (i, m) # named a\<rparr>)"

text \<open>\<open>squares.slice()\<close> copies the indexed elements only.\<close>

definition slice :: "jsarray \<Rightarrow> jsarray" where
  "slice a = \<lparr>cells = cells a, named = []\<rparr>"

definition BOARD_SIZE :: nat where
  "BOARD_SIZE = 3"

definition EMPTY_BOARD :: jsarray where
  "EMPTY_BOARD = \<lparr>cells = replicate (BOARD_SIZE * BOARD_SIZE) Null, named = []\<rparr>"

section \<open>calculateWinner and isDraw\<close>

definition lines :: "(nat \<times> nat \<times> nat) list" where
  "lines =
     [(0, 1, 2), (3, 4, 5), (6, 7, 8),
      (0, 3, 6), (1, 4, 7), (2, 5, 8),
      (0, 4, 8), (2, 4, 6)]"

text \<open>The value \<open>squares[a]\<close> as the first component of the returned pair.\<close>

fun asWinner :: "marker slot \<Rightarrow> marker option" where
  "asWinner (Val m) = Some m"
| "asWinner Null = None"
| "asWinner Hole = None"

text \<open>
  The test of the loop body:
  \<open>squares[a] && squares[a] === squares[b] && squares[a] === squares[c]\<close>.
\<close>

definition fullLine :: "jsarray \<Rightarrow> nat \<times> nat \<times> nat \<Rightarrow> bool" where
  "fullLine squares line =
     (case line of (a, b, c) \<Rightarrow>
        truthy (getAt squares (int a)) \<and>
        getAt squares (int a) = getAt squares (int b) \<and>
        getAt squares (int a) = getAt squares (int c))"

text \<open>The \<open>for (let line of lines)\<close> loop; \<open>(None, [])\<close> is \<open>[null, []]\<close>.\<close>

fun scanLines :: "jsarray \<Rightarrow> (nat \<times> nat \<times> nat) list \<Rightarrow> marker option \<times> nat list" where
  "scanLines squares [] = (None, [])"
| "scanLines squares ((a, b, c) # rest) =
     (if fullLine squares (a, b, c)
      then (asWinner (getAt squares (int a)), [a, b, c])
      else scanLines squares rest)"

definition calculateWinner :: "jsarray \<Rightarrow> marker option \<times> nat list" where
  "calculateWinner squares = scanLines squares lines"

text \<open>\<open>squares.every(x => x !== null)\<close>; a hole is skipped, and it is not null either.\<close>

definition isDraw :: "jsarray \<Rightarrow> bool" where
  "isDraw squares = list_all (\<lambda>x. x \<noteq> Null) (cells squares)"

section \<open>cpuMove\<close>

text \<open>
  \<open>xs[Math.floor(Math.random() * xs.length)]\<close>, with the value \<open>r\<close> of
  \<open>Math.random()\<close> as a parameter.  \<open>Math.random()\<close> returns a number with
  \<open>0 \<le> r < 1\<close>; the theorems about the random tiers assume exactly that.
\<close>

definition pick :: "rat \<Rightarrow> 'a list \<Rightarrow> 'a" where
  "pick r xs = xs ! nat \<lfloor>r * of_nat (length xs)\<rfloor>"

text \<open>
  The body of the first two loops for one \<open>i\<close>: the cell is free and marking the copy
  with \<open>who\<close> makes \<open>calculateWinner\<close> report \<open>who\<close>.
\<close>

definition completes :: "jsarray \<Rightarrow> marker \<Rightarrow> nat \<Rightarrow> bool" where
  "completes squares who i \<longleftrightarrow>
     \<not> truthy (getAt squares (int i)) \<and>
     fst (calculateWinner (put (slice squares) (int i) who)) = Some who"

text \<open>\<open>squares.map((v, i) => (v ? null : i))\<close>: holes stay holes.\<close>

definition freeIndexes :: "jsarray \<Rightarrow> nat slot list" where
  "freeIndexes squares =
     map (\<lambda>(v, i). case v of Hole \<Rightarrow> Hole | Null \<Rightarrow> Val i | Val m \<Rightarrow> Null)
       (zip (cells squares) [0 ..< length (cells squares)])"

text \<open>\<open>.filter(x => x !== null)\<close> on that array: holes are skipped, nulls dropped.\<close>

fun keepIndexes :: "nat slot list \<Rightarrow> nat list" where
  "keepIndexes [] = []"
| "keepIndexes (Val i # xs) = i # keepIndexes xs"
| "keepIndexes (Null # xs) = keepIndexes xs"
| "keepIndexes (Hole # xs) = keepIndexes xs"

text \<open>\<open>None\<close> is the returned null.\<close>

definition cpuMove :: "rat \<Rightarrow> jsarray \<Rightarrow> marker \<Rightarrow> nat option" where
  "cpuMove r squares player =
     (let opponent = (if player = mX then mO else mX) in
      case find (completes squares player) [0 ..< 9] of
        Some i \<Rightarrow> Some i
      | None \<Rightarrow>
     (case find (completes squares opponent) [0 ..< 9] of
        Some i \<Rightarrow> Some i
      | None \<Rightarrow>
      if \<not> truthy (getAt squares 4) then Some 4
      else
        let corners = filter (\<lambda>i. \<not> truthy (getAt squares (int i))) [0, 2, 6, 8] in
        if corners \<noteq> [] then Some (pick r corners)
        else
          let empties = keepIndexes (freeIndexes squares) in
          if empties \<noteq> [] then Some (pick r empties) else None))"

section \<open>The component: handlers, effects, renders\<close>

text \<open>
  A handler or an effect body reads the state variables of the render that created it
  (its closure \<open>c\<close>) and queues absolute values for the state setters; \<open>t\<close> is the
  state those values are written to.
\<close>

definition resetGame :: "session \<Rightarrow> session" where
  "resetGame t =
     t\<lparr>board := EMPTY_BOARD, xIsNext := True, winner := None,
       winningLine := [], draw := False\<rparr>"

text \<open>\<open>None\<close> is the early return: no setter is called.\<close>

definition handlePlay :: "session \<Rightarrow> int \<Rightarrow> session \<Rightarrow> session option" where
  "handlePlay c index t =
     (if truthy (getAt (board c) index) \<or> winner c \<noteq> None \<or> draw c then None
      else
        let squares = put (slice (board c)) index (if xIsNext c then mX else mO)
        in Some (t\<lparr>board := squares, xIsNext := \<not> xIsNext c\<rparr>))"

text \<open>Detect win/draw after every move (the effect on \<open>[board]\<close>).\<close>

definition detectEffect :: "session \<Rightarrow> session \<Rightarrow> session" where
  "detectEffect c t =
     (case calculateWinner (board c) of
        (Some win, line) \<Rightarrow> t\<lparr>winner := Some win, winningLine := line, draw := False\<rparr>
      | (None, line) \<Rightarrow>
          if isDraw (board c) then t\<lparr>winner := None, draw := True\<rparr>
          else t\<lparr>winner := None, winningLine := [], draw := False\<rparr>)"

text \<open>
  The computer-move effect.  Its result is the list of timers it starts: a timer is the
  \<open>handlePlay\<close> of the render \<open>c\<close> together with \<open>bestMove\<close>.  The effect returns no
  cleanup function, so nothing ever clears a timer.
\<close>

type_synonym timer = "session \<times> nat"

definition cpuEffect :: "rat \<Rightarrow> session \<Rightarrow> timer list" where
  "cpuEffect r c =
     (if mode c \<noteq> Cpu \<or> winner c \<noteq> None \<or> draw c then []
      else if \<not> xIsNext c then
        (case cpuMove r (board c) mO of
           Some bestMove \<Rightarrow> [(c, bestMove)]
         | None \<Rightarrow> [])
      else [])"

text \<open>
  The mounted component: the current state, the state of the last committed render
  (what the dependency arrays are compared with, and what the handlers on the page
  close over), and the pending timers, oldest first.
\<close>

record app =
  cur :: session
  rendered :: session
  timers :: "timer list"

text \<open>
  One render of the current state followed by its effects, in the order of the source.
  An effect runs on the first render and whenever one of its dependencies differs from
  the previous render.  All setter calls of one commit are applied together; a later
  call overwrites an earlier one.

  React compares arrays by reference, the model by content.  The two agree on what the
  component does: \<open>handlePlay\<close> always passes to \<open>setBoard\<close> an array with a marker
  where the board of its render had none, \<open>resetGame\<close> always passes the one
  \<open>EMPTY_BOARD\<close>, and a render that differs from the previous one only in the reference
  of an array of equal content runs the detection effect to the same values and the
  computer-move effect with X to move, which starts nothing.
\<close>

definition commit :: "rat \<Rightarrow> bool \<Rightarrow> app \<Rightarrow> app" where
  "commit r first a =
     (let s = cur a; p = rendered a;
          t1 = (if first \<or> board s \<noteq> board p then detectEffect s s else s);
          new = (if first \<or> xIsNext s \<noteq> xIsNext p \<or> mode s \<noteq> mode p \<or>
                    winner s \<noteq> winner p \<or> draw s \<noteq> draw p \<or> board s \<noteq> board p
                 then cpuEffect r s else []);
          t3 = (if first \<or> mode s \<noteq> mode p then resetGame t1 else t1)
      in \<lparr>cur = t3, rendered = s, timers = timers a @ new\<rparr>)"

text \<open>Render again for as long as the effects of the last render changed the state.\<close>

partial_function (option) settle :: "rat \<Rightarrow> app \<Rightarrow> app option" where
  "settle r a = (if cur a = rendered a then Some a else settle r (commit r False a))"

declare settle.simps [code]

definition initial :: session where
  "initial = \<lparr>mode = TwoP, board = EMPTY_BOARD, xIsNext = True, winner = None,
              winningLine = [], draw = False\<rparr>"

definition mount :: "rat \<Rightarrow> app option" where
  "mount r = settle r (commit r True \<lparr>cur = initial, rendered = initial, timers = []\<rparr>)"

text \<open>
  What can happen to the mounted component: a call of \<open>handlePlay(index)\<close> of the page,
  a call of \<open>resetGame\<close>, a call of \<open>setMode\<close>, and the oldest timer running out.
\<close>

datatype event = Play int | Reset | SetMode mode | Fire

fun dispatch :: "rat \<Rightarrow> event \<Rightarrow> app \<Rightarrow> app option" where
  "dispatch r (Play index) a =
     (case handlePlay (rendered a) index (cur a) of
        None \<Rightarrow> Some a
      | Some t \<Rightarrow> settle r (a\<lparr>cur := t\<rparr>))"
| "dispatch r Reset a = settle r (a\<lparr>cur := resetGame (cur a)\<rparr>)"
| "dispatch r (SetMode m) a = settle r (a\<lparr>cur := (cur a)\<lparr>mode := m\<rparr>\<rparr>)"
| "dispatch r Fire a =
     (case timers a of
        [] \<Rightarrow> Some a
      | (c, bestMove) # rest \<Rightarrow>
          (case handlePlay c (int bestMove) (cur a) of
             None \<Rightarrow> Some (a\<lparr>timers := rest\<rparr>)
           | Some t \<Rightarrow> settle r (a\<lparr>cur := t, timers := rest\<rparr>)))"

fun run :: "rat \<Rightarrow> event list \<Rightarrow> app \<Rightarrow> app option" where
  "run r [] a = Some a"
| "run r (e # es) a = (case dispatch r e a of None \<Rightarrow> None | Some a' \<Rightarrow> run r es a')"

section \<open>The specification's reset\<close>

text \<open>
  The operation \<open>reset(mode)\<close> in the words of the specification, for the comparison
  with what \<open>setMode\<close> does in the code: it sets the board to all-empty, the current
  marker to X, the game result to InProgress, and the mode to the given value (or
  retains the current mode if none is given).
\<close>

definition spec_reset :: "mode option \<Rightarrow> session \<Rightarrow> session" where
  "spec_reset given s =
     \<lparr>mode = (case given of Some m \<Rightarrow> m | None \<Rightarrow> mode s),
      board = \<lparr>cells = replicate 9 Null, named = []\<rparr>,
      xIsNext = True, winner = None, winningLine = [], draw = False\<rparr>"

section \<open>Facts about the array operations\<close>

lemma getAt_put_same: "getAt (put a i m) i = Val m"
  by (auto simp: getAt_def put_def nth_append)

lemma put_slice_neq: "\<not> truthy (getAt b i) \<Longrightarrow> put (slice b) i m \<noteq> b"
proof
  assume free: "\<not> truthy (getAt b i)" and same: "put (slice b) i m = b"
  have "getAt (put (slice b) i m) i = Val m" by (rule getAt_put_same)
  with same have "getAt b i = Val m" by simp
  with free show False by simp
qed

lemma calculateWinner_EMPTY: "calculateWinner EMPTY_BOARD = (None, [])"
  by (simp add: calculateWinner_def lines_def fullLine_def EMPTY_BOARD_def BOARD_SIZE_def
      getAt_def isIndex_def)

lemma isDraw_EMPTY: "\<not> isDraw EMPTY_BOARD"
  by (simp add: isDraw_def EMPTY_BOARD_def BOARD_SIZE_def list_all_iff)

lemma getAt_put_other:
  "isIndex j \<Longrightarrow> j \<noteq> i \<Longrightarrow> getAt (put a i m) j = getAt a j"
proof (cases "isIndex i")
  case True
  assume j: "isIndex j" "j \<noteq> i"
  with True have ne: "nat j \<noteq> nat i" unfolding isIndex_def by arith
  show ?thesis
  proof (cases "nat i < length (cells a)")
    case True
    with \<open>isIndex i\<close> j ne show ?thesis
      by (simp add: getAt_def put_def nth_list_update)
  next
    case False
    with \<open>isIndex i\<close> j ne show ?thesis
      by (auto simp: getAt_def put_def nth_append nth_Cons split: nat.splits; arith)
  qed
next
  case False
  assume "isIndex j"
  with False show ?thesis by (simp add: getAt_def put_def)
qed

lemma getAt_slice: "isIndex j \<Longrightarrow> getAt (slice a) j = getAt a j"
  by (simp add: getAt_def slice_def)

section \<open>Facts about the effects and the render loop\<close>

lemma resetGame_idem: "resetGame (resetGame t) = resetGame t"
  by (simp add: resetGame_def)

lemma resetGame_fields:
  "mode (resetGame t) = mode t"
  "board (resetGame t) = EMPTY_BOARD"
  "xIsNext (resetGame t)"
  "winner (resetGame t) = None"
  "winningLine (resetGame t) = []"
  "\<not> draw (resetGame t)"
  by (simp_all add: resetGame_def)

lemma detectEffect_resetGame: "detectEffect (resetGame t) (resetGame t) = resetGame t"
  by (simp add: detectEffect_def resetGame_def calculateWinner_EMPTY isDraw_EMPTY)

lemma cpuEffect_resetGame: "cpuEffect r (resetGame t) = []"
  by (simp add: cpuEffect_def resetGame_def)

lemma detectEffect_keeps:
  "mode (detectEffect c t) = mode t"
  "board (detectEffect c t) = board t"
  "xIsNext (detectEffect c t) = xIsNext t"
  by (auto simp: detectEffect_def split: prod.splits option.splits)

lemma settle_fix: "cur a = rendered a \<Longrightarrow> settle r a = Some a"
  by (subst settle.simps) simp

lemma settle_step: "cur a \<noteq> rendered a \<Longrightarrow> settle r a = settle r (commit r False a)"
  by (subst settle.simps) simp

lemma commit_restarted:
  "cur a = resetGame t \<Longrightarrow>
   commit r first a = \<lparr>cur = resetGame t, rendered = resetGame t, timers = timers a\<rparr>"
  by (simp add: commit_def Let_def detectEffect_resetGame cpuEffect_resetGame resetGame_idem)

text \<open>Once the state is the one \<open>resetGame\<close> writes, the render loop stops there.\<close>

lemma settle_restarted:
  assumes "cur a = resetGame t"
  shows "settle r a = Some \<lparr>cur = resetGame t, rendered = resetGame t, timers = timers a\<rparr>"
proof (cases "cur a = rendered a")
  case True
  with assms have "a = \<lparr>cur = resetGame t, rendered = resetGame t, timers = timers a\<rparr>"
    by simp
  with True show ?thesis using settle_fix [of a r] by simp
next
  case False
  then have "settle r a = settle r (commit r False a)" by (rule settle_step)
  also have "\<dots> = Some \<lparr>cur = resetGame t, rendered = resetGame t, timers = timers a\<rparr>"
    by (simp add: commit_restarted [OF assms] settle_fix)
  finally show ?thesis .
qed

lemma initial_restarted: "initial = resetGame initial"
  by (simp add: initial_def resetGame_def)

lemma mount_eq: "mount r = Some \<lparr>cur = initial, rendered = initial, timers = []\<rparr>"
proof -
  have "commit r True \<lparr>cur = initial, rendered = initial, timers = []\<rparr> =
        \<lparr>cur = resetGame initial, rendered = resetGame initial, timers = []\<rparr>"
    using commit_restarted [of "\<lparr>cur = initial, rendered = initial, timers = []\<rparr>" initial r True]
      initial_restarted by simp
  then show ?thesis
    using initial_restarted by (simp add: mount_def settle_fix)
qed

text \<open>
  After a change of the board that leaves the mode alone, the loop ends in the state
  the detection effect computes from the new board; it may have started timers.
\<close>

lemma settle_moved:
  assumes m: "mode (cur a) = mode (rendered a)"
      and b: "board (cur a) \<noteq> board (rendered a)"
  shows "\<exists>ts. settle r a =
           Some \<lparr>cur = detectEffect (cur a) (cur a),
                 rendered = detectEffect (cur a) (cur a),
                 timers = timers a @ ts\<rparr>"
proof -
  let ?t = "detectEffect (cur a) (cur a)"
  from b have ne: "cur a \<noteq> rendered a" by auto
  have c1: "commit r False a =
              \<lparr>cur = ?t, rendered = cur a, timers = timers a @ cpuEffect r (cur a)\<rparr>"
    using m b by (simp add: commit_def Let_def)
  show ?thesis
  proof (cases "?t = cur a")
    case True
    then show ?thesis
      using settle_step [OF ne, of r] c1 by (simp add: settle_fix)
  next
    case False
    let ?a1 = "\<lparr>cur = ?t, rendered = cur a, timers = timers a @ cpuEffect r (cur a)\<rparr>"
    let ?more = "if winner ?t \<noteq> winner (cur a) \<or> draw ?t \<noteq> draw (cur a)
                 then cpuEffect r ?t else []"
    have ne1: "cur ?a1 \<noteq> rendered ?a1" using False by simp
    have c2: "commit r False ?a1 =
                \<lparr>cur = ?t, rendered = ?t,
                 timers = (timers a @ cpuEffect r (cur a)) @ ?more\<rparr>"
      by (simp add: commit_def Let_def detectEffect_keeps)
    have "settle r a = settle r ?a1"
      using settle_step [OF ne, of r] c1 by simp
    also have "\<dots> = settle r (commit r False ?a1)"
      by (rule settle_step [OF ne1])
    also have "\<dots> = Some \<lparr>cur = ?t, rendered = ?t,
                           timers = timers a @ (cpuEffect r (cur a) @ ?more)\<rparr>"
      by (simp only: c2) (simp add: settle_fix)
    finally show ?thesis by blast
  qed
qed

text \<open>The render loop always ends, and it ends in a state whose effects change nothing.\<close>

lemma settle_settled:
  assumes "settle r a = Some a'"
  shows "rendered a' = cur a'"
  by (rule settle.raw_induct [where P = "\<lambda>r a a'. rendered a' = cur a'", OF _ assms])
     (auto split: if_splits)

lemma settle_total: "\<exists>a'. settle r a = Some a'"
proof (cases "cur a = rendered a")
  case True
  then show ?thesis by (simp add: settle_fix)
next
  case False
  note ne = this
  show ?thesis
  proof (cases "mode (cur a) = mode (rendered a)")
    case True
    note m = this
    show ?thesis
    proof (cases "board (cur a) = board (rendered a)")
      case True
      with m have "commit r False a =
          \<lparr>cur = cur a, rendered = cur a,
           timers = timers a @ (if xIsNext (cur a) \<noteq> xIsNext (rendered a) \<or>
             winner (cur a) \<noteq> winner (rendered a) \<or> draw (cur a) \<noteq> draw (rendered a)
             then cpuEffect r (cur a) else [])\<rparr>"
        by (simp add: commit_def Let_def)
      then show ?thesis using settle_step [OF ne, of r] by (simp add: settle_fix)
    next
      case False
      from settle_moved [OF m False] show ?thesis by blast
    qed
  next
    case False
    then have "cur (commit r False a) = resetGame (cur (commit r False a))"
      by (simp add: commit_def Let_def resetGame_idem)
    from settle_restarted [OF this] show ?thesis
      using settle_step [OF ne, of r] by simp
  qed
qed

lemma dispatch_total: "\<exists>a'. dispatch r e a = Some a'"
  by (cases e) (auto simp: settle_total split: option.splits list.splits)

lemma dispatch_settled: "dispatch r e a = Some a' \<Longrightarrow> rendered a = cur a \<Longrightarrow> rendered a' = cur a'"
  by (cases e) (auto simp: settle_settled split: option.splits list.splits)

text \<open>So every state the component reaches from its mount is one between two events.\<close>

lemma run_settled:
  "run r es a = Some a' \<Longrightarrow> rendered a = cur a \<Longrightarrow> rendered a' = cur a'"
proof (induction es arbitrary: a)
  case Nil
  then show ?case by simp
next
  case (Cons e es)
  from Cons.prems(1) obtain b where b: "dispatch r e a = Some b" "run r es b = Some a'"
    by (auto split: option.splits)
  from dispatch_settled [OF b(1) Cons.prems(2)] have "rendered b = cur b" .
  with Cons.IH [OF b(2)] show ?case .
qed

lemma reachable_settled:
  "Option.bind (mount r) (run r es) = Some a \<Longrightarrow> rendered a = cur a"
  using run_settled [of r es "\<lparr>cur = initial, rendered = initial, timers = []\<rparr>" a]
  by (simp add: mount_eq)

section \<open>Facts about handlePlay\<close>

lemma gameResult_InProgress: "gameResult s = InProgress \<longleftrightarrow> winner s = None \<and> \<not> draw s"
  by (simp add: gameResult_def split: option.splits)

lemma handlePlay_None:
  "handlePlay c i t = None \<longleftrightarrow> gameResult c \<noteq> InProgress \<or> truthy (getAt (board c) i)"
  by (auto simp: handlePlay_def gameResult_InProgress Let_def)

lemma handlePlay_over: "gameResult c \<noteq> InProgress \<Longrightarrow> handlePlay c i t = None"
  by (simp add: handlePlay_None)

lemma detectEffect_result:
  "winner (detectEffect c t) = fst (calculateWinner (board c))"
  "draw (detectEffect c t) = (fst (calculateWinner (board c)) = None \<and> isDraw (board c))"
  "winner (detectEffect c t) \<noteq> None \<Longrightarrow> winningLine (detectEffect c t) = snd (calculateWinner (board c))"
  by (auto simp: detectEffect_def split: prod.splits option.splits)

lemma play_step:
  assumes s: "rendered a = cur a"
      and g: "gameResult (cur a) = InProgress"
      and f: "\<not> truthy (getAt (board (cur a)) index)"
  shows "\<exists>ts. dispatch r (Play index) a =
           Some \<lparr>cur = detectEffect
                    ((cur a)\<lparr>board := put (slice (board (cur a))) index (if xIsNext (cur a) then mX else mO),
                             xIsNext := \<not> xIsNext (cur a)\<rparr>)
                    ((cur a)\<lparr>board := put (slice (board (cur a))) index (if xIsNext (cur a) then mX else mO),
                             xIsNext := \<not> xIsNext (cur a)\<rparr>),
                 rendered = detectEffect
                    ((cur a)\<lparr>board := put (slice (board (cur a))) index (if xIsNext (cur a) then mX else mO),
                             xIsNext := \<not> xIsNext (cur a)\<rparr>)
                    ((cur a)\<lparr>board := put (slice (board (cur a))) index (if xIsNext (cur a) then mX else mO),
                             xIsNext := \<not> xIsNext (cur a)\<rparr>),
                 timers = timers a @ ts\<rparr>"
proof -
  let ?t = "(cur a)\<lparr>board := put (slice (board (cur a))) index (if xIsNext (cur a) then mX else mO),
                             xIsNext := \<not> xIsNext (cur a)\<rparr>"
  have h: "handlePlay (rendered a) index (cur a) = Some ?t"
    using s g f by (simp add: handlePlay_def gameResult_InProgress Let_def)
  have "board ?t \<noteq> board (rendered a)"
    using put_slice_neq [OF f] s by simp
  moreover have "mode ?t = mode (rendered a)" using s by simp
  ultimately show ?thesis
    using settle_moved [of "a\<lparr>cur := ?t\<rparr>" r] h by simp
qed

section \<open>Facts about calculateWinner\<close>

lemma truthy_iff: "truthy v \<longleftrightarrow> (\<exists>m. v = Val m)"
  by (cases v) auto

lemma fullLine_iff:
  "fullLine sq (a, b, c) \<longleftrightarrow>
     (\<exists>m. getAt sq (int a) = Val m \<and> getAt sq (int b) = Val m \<and> getAt sq (int c) = Val m)"
  by (auto simp: fullLine_def truthy_iff)

lemma scanLines_none: "\<forall>l\<in>set ls. \<not> fullLine sq l \<Longrightarrow> scanLines sq ls = (None, [])"
  by (induction sq ls rule: scanLines.induct) auto

lemma scanLines_first:
  "\<forall>l\<in>set pre. \<not> fullLine sq l \<Longrightarrow> fullLine sq (a, b, c) \<Longrightarrow>
   scanLines sq (pre @ (a, b, c) # post) = (asWinner (getAt sq (int a)), [a, b, c])"
  by (induction pre) auto

lemma scanLines_some:
  assumes "\<exists>l\<in>set ls. fullLine sq l"
  shows "\<exists>a b c m. (a, b, c) \<in> set ls \<and> getAt sq (int a) = Val m \<and>
           getAt sq (int b) = Val m \<and> getAt sq (int c) = Val m \<and>
           scanLines sq ls = (Some m, [a, b, c])"
proof -
  from assms obtain pre l post where
    sp: "ls = pre @ l # post" "fullLine sq l" "\<forall>l'\<in>set pre. \<not> fullLine sq l'"
    by (auto dest!: split_list_first_prop)
  obtain a b c where l: "l = (a, b, c)" by (cases l) auto
  from sp(2) l obtain m where m: "getAt sq (int a) = Val m"
    "getAt sq (int b) = Val m" "getAt sq (int c) = Val m"
    by (auto simp: fullLine_iff)
  have "(a, b, c) \<in> set ls" unfolding sp(1) l by simp
  moreover have "scanLines sq ls = (Some m, [a, b, c])"
    using scanLines_first [OF sp(3), of a b c post] sp l m by simp
  ultimately show ?thesis using m by blast
qed

lemma lines_small: "(a, b, c) \<in> set lines \<Longrightarrow> a < 9 \<and> b < 9 \<and> c < 9"
  by (auto simp: lines_def)

lemma lines_order:
  "lines = map (\<lambda>r. (3 * r, 3 * r + 1, 3 * r + 2)) [0, 1, 2] @
           map (\<lambda>c. (c, c + 3, c + 6)) [0, 1, 2] @ [(0, 4, 8), (2, 4, 6)]"
  by (simp add: lines_def)

lemma getAt_cell:
  "length (cells sq) = 9 \<Longrightarrow> i < 9 \<Longrightarrow> getAt sq (int i) = cells sq ! i"
  by (simp add: getAt_def isIndex_def)

lemma not_truthy_Null:
  "Hole \<notin> set (cells sq) \<Longrightarrow> i < length (cells sq) \<Longrightarrow>
   \<not> truthy (cells sq ! i) \<longleftrightarrow> cells sq ! i = Null"
  by (cases "cells sq ! i") (auto simp: in_set_conv_nth)

lemma isDraw_iff:
  assumes "length (cells sq) = 9" "Hole \<notin> set (cells sq)"
  shows "isDraw sq \<longleftrightarrow> (\<forall>i<9. truthy (getAt sq (int i)))"
proof -
  have "isDraw sq \<longleftrightarrow> (\<forall>i<9. cells sq ! i \<noteq> Null)"
    using assms(1) by (simp add: isDraw_def list_all_length)
  also have "\<dots> \<longleftrightarrow> (\<forall>i<9. truthy (getAt sq (int i)))"
    using assms by (metis getAt_cell not_truthy_Null)
  finally show ?thesis .
qed

section \<open>Facts about cpuMove\<close>

lemma find_upt_Some:
  "find P [0..<n] = Some i \<longleftrightarrow> i < n \<and> P i \<and> (\<forall>j<i. \<not> P j)"
  by (auto simp: find_Some_iff)

lemma find_upt_None: "find P [0..<n] = None \<longleftrightarrow> (\<forall>i<n. \<not> P i)"
  by (auto simp: find_None_iff)

lemma pick_in_set:
  assumes "0 \<le> r" "r < 1" "xs \<noteq> []"
  shows "pick r xs \<in> set xs"
proof -
  let ?n = "length xs"
  have n: "0 < ?n" using assms(3) by simp
  have "r * of_nat ?n < of_nat ?n" using assms(2) n by simp
  then have "\<lfloor>r * of_nat ?n\<rfloor> < int ?n" by (simp add: floor_less_iff)
  moreover have "0 \<le> \<lfloor>r * of_nat ?n\<rfloor>" using assms(1) by simp
  ultimately have "nat \<lfloor>r * of_nat ?n\<rfloor> < ?n" by (simp only: nat_less_iff)
  then show ?thesis by (simp add: pick_def)
qed

lemma in_filterD: "x \<in> set (filter P xs) \<Longrightarrow> x \<in> set xs \<and> P x"
  by simp

lemma keepIndexes_set: "i \<in> set (keepIndexes ys) \<longleftrightarrow> Val i \<in> set ys"
  by (induction ys rule: keepIndexes.induct) auto

lemma freeIndexes_nth:
  "j < length (cells sq) \<Longrightarrow>
   freeIndexes sq ! j = (case cells sq ! j of Hole \<Rightarrow> Hole | Null \<Rightarrow> Val j | Val m \<Rightarrow> Null)"
  by (simp add: freeIndexes_def)

lemma freeIndexes_length: "length (freeIndexes sq) = length (cells sq)"
  by (simp add: freeIndexes_def)

lemma empties_set:
  "i \<in> set (keepIndexes (freeIndexes sq)) \<longleftrightarrow> i < length (cells sq) \<and> cells sq ! i = Null"
proof
  assume "i \<in> set (keepIndexes (freeIndexes sq))"
  then have "Val i \<in> set (freeIndexes sq)" by (simp add: keepIndexes_set)
  then obtain j where j: "j < length (cells sq)" "freeIndexes sq ! j = Val i"
    by (auto simp: in_set_conv_nth freeIndexes_length)
  then show "i < length (cells sq) \<and> cells sq ! i = Null"
    by (auto simp: freeIndexes_nth split: slot.splits)
next
  assume a: "i < length (cells sq) \<and> cells sq ! i = Null"
  then have "freeIndexes sq ! i = Val i" by (simp add: freeIndexes_nth)
  with a have "Val i \<in> set (freeIndexes sq)"
    by (metis freeIndexes_length nth_mem)
  then show "i \<in> set (keepIndexes (freeIndexes sq))" by (simp add: keepIndexes_set)
qed

lemma cpuMove_Some_legal:
  assumes len: "length (cells sq) = 9" and r: "0 \<le> r" "r < 1"
      and mv: "cpuMove r sq p = Some i"
  shows "i < 9 \<and> \<not> truthy (getAt sq (int i))"
proof -
  let ?corners = "filter (\<lambda>i. \<not> truthy (getAt sq (int i))) [0, 2, 6, 8]"
  let ?empties = "keepIndexes (freeIndexes sq)"
  have c: "?corners \<noteq> [] \<Longrightarrow> pick r ?corners < 9 \<and> \<not> truthy (getAt sq (int (pick r ?corners)))"
  proof -
    assume "?corners \<noteq> []"
    from pick_in_set [OF r this] have "pick r ?corners \<in> set ?corners" .
    then have "pick r ?corners \<in> set [0, 2, 6, 8] \<and>
               \<not> truthy (getAt sq (int (pick r ?corners)))"
      by (rule in_filterD)
    moreover have "\<forall>k\<in>set [0, 2, 6, 8 :: nat]. k < 9" by simp
    ultimately show ?thesis by blast
  qed
  have e: "?empties \<noteq> [] \<Longrightarrow> pick r ?empties < 9 \<and> \<not> truthy (getAt sq (int (pick r ?empties)))"
  proof -
    assume "?empties \<noteq> []"
    from pick_in_set [OF r this] have "pick r ?empties \<in> set ?empties" .
    then have "pick r ?empties < 9 \<and> cells sq ! pick r ?empties = Null"
      using len by (simp add: empties_set)
    then show ?thesis using len by (simp add: getAt_cell)
  qed
  from mv c e show ?thesis
    unfolding cpuMove_def Let_def
    by (auto simp: find_upt_Some completes_def split: option.splits if_splits)
qed

lemma cpuMove_None_iff:
  assumes len: "length (cells sq) = 9" and nh: "Hole \<notin> set (cells sq)"
  shows "cpuMove r sq p = None \<longleftrightarrow> (\<forall>i<9. truthy (getAt sq (int i)))"
proof
  assume "cpuMove r sq p = None"
  then have "keepIndexes (freeIndexes sq) = []"
    unfolding cpuMove_def Let_def by (auto split: option.splits if_splits)
  then have "\<forall>i<9. cells sq ! i \<noteq> Null"
    using empties_set [of _ sq] len by (metis empty_iff list.set(1))
  then show "\<forall>i<9. truthy (getAt sq (int i))"
    using len nh by (metis getAt_cell not_truthy_Null)
next
  assume full: "\<forall>i<9. truthy (getAt sq (int i))"
  then have 1: "\<And>who. find (completes sq who) [0..<9] = None"
    by (simp add: find_upt_None completes_def)
  have t: "truthy (getAt sq (int k))" if "k < 9" for k using full that by blast
  have 2: "truthy (getAt sq 4)" using t [of 4] by simp
  have 3: "truthy (getAt sq 0)" "truthy (getAt sq 2)" "truthy (getAt sq 6)" "truthy (getAt sq 8)"
    using t [of 0] t [of 2] t [of 6] t [of 8] by simp_all
  have "\<And>i. i \<notin> set (keepIndexes (freeIndexes sq))"
    using full len by (auto simp: empties_set getAt_cell)
  then have 4: "keepIndexes (freeIndexes sq) = []" by (meson all_not_in_conv set_empty)
  show "cpuMove r sq p = None"
    unfolding cpuMove_def Let_def by (simp add: 1 2 3 4)
qed

lemma getAt_copy:
  "k < 9 \<Longrightarrow> getAt (put (slice sq) (int i) p) (int k) = (if k = i then Val p else getAt sq (int k))"
  by (simp add: getAt_put_same getAt_put_other getAt_slice isIndex_def)

lemma completes_line:
  assumes none: "\<forall>l\<in>set lines. \<not> fullLine sq l"
  shows "completes sq p i \<longleftrightarrow>
           \<not> truthy (getAt sq (int i)) \<and>
           (\<exists>(a, b, c)\<in>set lines. i \<in> {a, b, c} \<and>
              (\<forall>k\<in>{a, b, c}. k \<noteq> i \<longrightarrow> getAt sq (int k) = Val p))"
proof -
  let ?copy = "put (slice sq) (int i) p"
  have through: "i \<in> {a, b, c} \<and> m = p \<and> (\<forall>k\<in>{a, b, c}. k \<noteq> i \<longrightarrow> getAt sq (int k) = Val p)"
    if l: "(a, b, c) \<in> set lines"
      and f: "getAt ?copy (int a) = Val m" "getAt ?copy (int b) = Val m" "getAt ?copy (int c) = Val m"
    for a b c m
  proof -
    from lines_small [OF l] have s: "a < 9" "b < 9" "c < 9" by simp_all
    have "i \<in> {a, b, c}"
    proof (rule ccontr)
      assume "i \<notin> {a, b, c}"
      with f s have "fullLine sq (a, b, c)" by (auto simp: getAt_copy fullLine_iff)
      with none l show False by blast
    qed
    with f s show ?thesis by (auto simp: getAt_copy split: if_splits)
  qed
  show ?thesis
  proof
    assume c: "completes sq p i"
    then have w: "fst (scanLines ?copy lines) = Some p" and e: "\<not> truthy (getAt sq (int i))"
      by (simp_all add: completes_def calculateWinner_def)
    have "\<exists>l\<in>set lines. fullLine ?copy l"
    proof (rule ccontr)
      assume "\<not> (\<exists>l\<in>set lines. fullLine ?copy l)"
      then have "scanLines ?copy lines = (None, [])" by (simp add: scanLines_none)
      with w show False by simp
    qed
    from scanLines_some [OF this] obtain a b c m where
      "(a, b, c) \<in> set lines" "getAt ?copy (int a) = Val m" "getAt ?copy (int b) = Val m"
      "getAt ?copy (int c) = Val m" by blast
    from through [OF this] \<open>(a, b, c) \<in> set lines\<close> e
    show "\<not> truthy (getAt sq (int i)) \<and>
           (\<exists>(a, b, c)\<in>set lines. i \<in> {a, b, c} \<and>
              (\<forall>k\<in>{a, b, c}. k \<noteq> i \<longrightarrow> getAt sq (int k) = Val p))"
      by blast
  next
    assume r: "\<not> truthy (getAt sq (int i)) \<and>
           (\<exists>(a, b, c)\<in>set lines. i \<in> {a, b, c} \<and>
              (\<forall>k\<in>{a, b, c}. k \<noteq> i \<longrightarrow> getAt sq (int k) = Val p))"
    then obtain a b c where l: "(a, b, c) \<in> set lines" "i \<in> {a, b, c}"
      "\<forall>k\<in>{a, b, c}. k \<noteq> i \<longrightarrow> getAt sq (int k) = Val p" by blast
    from lines_small [OF l(1)] have s: "a < 9" "b < 9" "c < 9" by simp_all
    have "fullLine ?copy (a, b, c)"
      using l(2,3) s by (auto simp: fullLine_iff getAt_copy)
    with l(1) have "\<exists>l\<in>set lines. fullLine ?copy l" by blast
    from scanLines_some [OF this] obtain a' b' c' m where
      f: "(a', b', c') \<in> set lines" "getAt ?copy (int a') = Val m" "getAt ?copy (int b') = Val m"
      "getAt ?copy (int c') = Val m" and sc: "scanLines ?copy lines = (Some m, [a', b', c'])"
      by blast
    from through [OF f] have "m = p" by simp
    with sc r show "completes sq p i" by (simp add: completes_def calculateWinner_def)
  qed
qed

section \<open>Evaluation on concrete boards\<close>

lemma EMPTY_BOARD_cells:
  "EMPTY_BOARD = \<lparr>cells = [Null, Null, Null, Null, Null, Null, Null, Null, Null], named = []\<rparr>"
  by (simp add: EMPTY_BOARD_def BOARD_SIZE_def numeral_eq_Suc)

lemma upt_0_9: "[0..<9] = [0, 1, 2, 3, 4, 5, 6, 7, 8]"
  by (simp add: upt_rec)

lemma all_less_9:
  "(\<forall>i<9. P i) \<longleftrightarrow> P 0 \<and> P 1 \<and> P 2 \<and> P 3 \<and> P 4 \<and> P 5 \<and> P 6 \<and> P 7 \<and> P (8::nat)"
proof -
  have "(\<forall>i<9. P i) \<longleftrightarrow> (\<forall>i\<in>set [0..<9]. P i)" by auto
  also have "\<dots> \<longleftrightarrow> P 0 \<and> P 1 \<and> P 2 \<and> P 3 \<and> P 4 \<and> P 5 \<and> P 6 \<and> P 7 \<and> P 8"
    unfolding upt_0_9 by simp
  finally show ?thesis .
qed

lemma ex_less_9:
  "(\<exists>i<9. P i) \<longleftrightarrow> P 0 \<or> P 1 \<or> P 2 \<or> P 3 \<or> P 4 \<or> P 5 \<or> P 6 \<or> P 7 \<or> P (8::nat)"
  using all_less_9 [of "\<lambda>i. \<not> P i"] by blast

lemmas board_defs = calculateWinner_def lines_def fullLine_def getAt_def put_def slice_def
  isIndex_def isDraw_def

lemmas step_defs = handlePlay_def commit_def detectEffect_def cpuEffect_def initial_def
  EMPTY_BOARD_cells resetGame_def gameResult_def Let_def settle_fix settle_step mount_eq

lemma cpuMove_after_corner:
  "cpuMove r \<lparr>cells = [Val mX, Null, Null, Null, Null, Null, Null, Null, Null], named = []\<rparr> mO
     = Some 4"
  by (simp add: cpuMove_def completes_def upt_0_9 board_defs)

section \<open>resetGame\<close>

text \<open>
  C7.  In every state of the component, a call of \<open>resetGame\<close> goes through: the
  render loop that follows it ends, and it ends with the board made of nine nulls, X to
  move, no winner and no draw (the game in progress), and the mode it had before.
  The pending timers are not touched.
\<close>

theorem reset_restarts_game:
  "\<exists>a'. dispatch r Reset a = Some a' \<and>
        board (cur a') = EMPTY_BOARD \<and>
        cells (board (cur a')) = replicate 9 Null \<and>
        named (board (cur a')) = [] \<and>
        xIsNext (cur a') \<and>
        gameResult (cur a') = InProgress \<and>
        mode (cur a') = mode (cur a) \<and>
        rendered a' = cur a'"
proof -
  have "dispatch r Reset a =
          Some \<lparr>cur = resetGame (cur a), rendered = resetGame (cur a), timers = timers a\<rparr>"
    using settle_restarted [of "a\<lparr>cur := resetGame (cur a)\<rparr>" "cur a" r] by simp
  then show ?thesis
    by (simp add: resetGame_fields gameResult_def EMPTY_BOARD_def BOARD_SIZE_def)
qed

theorem reset_restarts_game_witness:
  "\<exists>a'. dispatch 0 Reset
          \<lparr>cur = \<lparr>mode = Cpu,
                  board = \<lparr>cells = [Val mX, Val mX, Val mX, Null, Val mO, Val mO, Null, Null, Null],
                           named = []\<rparr>,
                  xIsNext = False, winner = Some mX, winningLine = [0, 1, 2], draw = False\<rparr>,
           rendered = \<lparr>mode = Cpu,
                  board = \<lparr>cells = [Val mX, Val mX, Val mX, Null, Val mO, Val mO, Null, Null, Null],
                           named = []\<rparr>,
                  xIsNext = False, winner = Some mX, winningLine = [0, 1, 2], draw = False\<rparr>,
           timers = []\<rparr> = Some a' \<and>
        cells (board (cur a')) = replicate 9 Null \<and>
        xIsNext (cur a') \<and>
        gameResult (cur a') = InProgress \<and>
        mode (cur a') = Cpu"
  using reset_restarts_game [of 0
          "\<lparr>cur = \<lparr>mode = Cpu,
                  board = \<lparr>cells = [Val mX, Val mX, Val mX, Null, Val mO, Val mO, Null, Null, Null],
                           named = []\<rparr>,
                  xIsNext = False, winner = Some mX, winningLine = [0, 1, 2], draw = False\<rparr>,
           rendered = \<lparr>mode = Cpu,
                  board = \<lparr>cells = [Val mX, Val mX, Val mX, Null, Val mO, Val mO, Null, Null, Null],
                           named = []\<rparr>,
                  xIsNext = False, winner = Some mX, winningLine = [0, 1, 2], draw = False\<rparr>,
           timers = []\<rparr>"]
  by auto

section \<open>handlePlay: rejected calls\<close>

text \<open>
  C1, as the code has it.  A call \<open>handlePlay(index)\<close> from the page is rejected, and
  then nothing of the component changes (board, turn, winner, draw, mode, timers),
  exactly when the game is over (a winner or a draw is recorded) or \<open>board[index]\<close>
  already holds a marker.  There is no test of the range of \<open>index\<close> and no test of
  the mode: an index outside 0..8 whose slot holds nothing is accepted, and so is a call
  in "cpu" mode while O is to move.  Every call returns.
\<close>

theorem play_rejected_iff:
  assumes "rendered a = cur a"
  shows "(\<exists>a'. dispatch r (Play index) a = Some a') \<and>
         (dispatch r (Play index) a = Some a \<longleftrightarrow>
            gameResult (cur a) \<noteq> InProgress \<or> truthy (getAt (board (cur a)) index))"
proof (cases "gameResult (cur a) \<noteq> InProgress \<or> truthy (getAt (board (cur a)) index)")
  case True
  then have "handlePlay (rendered a) index (cur a) = None"
    using assms by (simp add: handlePlay_None)
  with True show ?thesis by simp
next
  case False
  then have g: "gameResult (cur a) = InProgress"
    and f: "\<not> truthy (getAt (board (cur a)) index)" by simp_all
  from play_step [OF assms g f, of r] obtain a' where
    d: "dispatch r (Play index) a = Some a'"
    and b: "board (cur a') = put (slice (board (cur a))) index (if xIsNext (cur a) then mX else mO)"
    by (auto simp: detectEffect_keeps)
  from b put_slice_neq [OF f, of "if xIsNext (cur a) then mX else mO"]
  have "a' \<noteq> a" by auto
  with d False show ?thesis by simp
qed

theorem play_rejected_iff_witness:
  "dispatch 0 (Play 4)
     \<lparr>cur = \<lparr>mode = TwoP,
              board = \<lparr>cells = [Null, Null, Null, Null, Val mX, Null, Null, Null, Null],
                       named = []\<rparr>,
              xIsNext = False, winner = None, winningLine = [], draw = False\<rparr>,
     rendered = \<lparr>mode = TwoP,
                   board = \<lparr>cells = [Null, Null, Null, Null, Val mX, Null, Null, Null, Null],
                            named = []\<rparr>,
                   xIsNext = False, winner = None, winningLine = [], draw = False\<rparr>,
     timers = []\<rparr> =
   Some
     \<lparr>cur = \<lparr>mode = TwoP,
              board = \<lparr>cells = [Null, Null, Null, Null, Val mX, Null, Null, Null, Null],
                       named = []\<rparr>,
              xIsNext = False, winner = None, winningLine = [], draw = False\<rparr>,
     rendered = \<lparr>mode = TwoP,
                   board = \<lparr>cells = [Null, Null, Null, Null, Val mX, Null, Null, Null, Null],
                            named = []\<rparr>,
                   xIsNext = False, winner = None, winningLine = [], draw = False\<rparr>,
     timers = []\<rparr>"
  using play_rejected_iff [of
     "\<lparr>cur = \<lparr>mode = TwoP,
              board = \<lparr>cells = [Null, Null, Null, Null, Val mX, Null, Null, Null, Null],
                       named = []\<rparr>,
              xIsNext = False, winner = None, winningLine = [], draw = False\<rparr>,
     rendered = \<lparr>mode = TwoP,
                   board = \<lparr>cells = [Null, Null, Null, Null, Val mX, Null, Null, Null, Null],
                            named = []\<rparr>,
                   xIsNext = False, winner = None, winningLine = [], draw = False\<rparr>,
     timers = []\<rparr>" 0 4]
  by (simp add: getAt_def isIndex_def)

text \<open>
  The claim as stated fails twice: on the mounted component \<open>handlePlay(9)\<close> extends the
  board to ten cells and passes the turn; and in "cpu" mode, after X has played cell 0
  and while the computer's move is pending, \<open>handlePlay(1)\<close> places an O at cell 1.
\<close>

theorem play_rejection_counterexample:
  "Option.bind (mount 0) (run 0 [Play 9]) =
     Some
     \<lparr>cur = \<lparr>mode = TwoP,
              board = \<lparr>cells = [Null, Null, Null, Null, Null, Null, Null, Null, Null, Val mX],
                       named = []\<rparr>,
              xIsNext = False, winner = None, winningLine = [], draw = False\<rparr>,
     rendered = \<lparr>mode = TwoP,
                   board = \<lparr>cells = [Null, Null, Null, Null, Null, Null, Null, Null, Null, Val mX],
                            named = []\<rparr>,
                   xIsNext = False, winner = None, winningLine = [], draw = False\<rparr>,
     timers = []\<rparr> \<and>
   Option.bind (mount 0) (run 0 [SetMode Cpu, Play 0]) =
     Some
     \<lparr>cur = \<lparr>mode = Cpu,
              board = \<lparr>cells = [Val mX, Null, Null, Null, Null, Null, Null, Null, Null],
                       named = []\<rparr>,
              xIsNext = False, winner = None, winningLine = [], draw = False\<rparr>,
     rendered = \<lparr>mode = Cpu,
                   board = \<lparr>cells = [Val mX, Null, Null, Null, Null, Null, Null, Null, Null],
                            named = []\<rparr>,
                   xIsNext = False, winner = None, winningLine = [], draw = False\<rparr>,
     timers = [(\<lparr>mode = Cpu,
               board = \<lparr>cells = [Val mX, Null, Null, Null, Null, Null, Null, Null, Null],
                        named = []\<rparr>,
               xIsNext = False, winner = None, winningLine = [], draw = False\<rparr>, 4)]\<rparr> \<and>
   Option.bind (mount 0) (run 0 [SetMode Cpu, Play 0, Play 1]) =
     Some
     \<lparr>cur = \<lparr>mode = Cpu,
              board = \<lparr>cells = [Val mX, Val mO, Null, Null, Null, Null, Null, Null, Null],
                       named = []\<rparr>,
              xIsNext = True, winner = None, winningLine = [], draw = False\<rparr>,
     rendered = \<lparr>mode = Cpu,
                   board = \<lparr>cells = [Val mX, Val mO, Null, Null, Null, Null, Null, Null, Null],
                            named = []\<rparr>,
                   xIsNext = True, winner = None, winningLine = [], draw = False\<rparr>,
     timers = [(\<lparr>mode = Cpu,
               board = \<lparr>cells = [Val mX, Null, Null, Null, Null, Null, Null, Null, Null],
                        named = []\<rparr>,
               xIsNext = False, winner = None, winningLine = [], draw = False\<rparr>, 4)]\<rparr>"
  by (simp add: step_defs board_defs cpuMove_after_corner)

section \<open>Win and draw detection\<close>

text \<open>
  C2.  The evaluation of a board is what the detection effect records for it, read as the
  status bar reads it: \<open>gameResult (detectEffect s s)\<close>.  On a board of nine cells, each
  null or a marker: the test of the loop holds for a line exactly when its three cells
  hold one and the same marker; the result is the win of the first full line in the order
  of \<open>lines\<close>, with its marker and its three indexes; so whenever some line is full the
  result is a win of a full line; with no full line and nine markers it is a draw; with no
  full line and a free cell the game is in progress, as it is on the empty board; and
  \<open>lines\<close> are the three rows, then the three columns, then the two diagonals.
\<close>

theorem evaluate_board:
  assumes len: "length (cells (board s)) = 9" and nh: "Hole \<notin> set (cells (board s))"
  shows
   "(\<forall>a b c. fullLine (board s) (a, b, c) \<longleftrightarrow>
        (\<exists>m. getAt (board s) (int a) = Val m \<and> getAt (board s) (int b) = Val m \<and>
             getAt (board s) (int c) = Val m)) \<and>
    (\<forall>pre a b c post m.
        lines = pre @ (a, b, c) # post \<and> (\<forall>l\<in>set pre. \<not> fullLine (board s) l) \<and>
        getAt (board s) (int a) = Val m \<and> getAt (board s) (int b) = Val m \<and>
        getAt (board s) (int c) = Val m \<longrightarrow>
        gameResult (detectEffect s s) = Win m [a, b, c]) \<and>
    ((\<exists>l\<in>set lines. fullLine (board s) l) \<longrightarrow>
        (\<exists>m a b c. (a, b, c) \<in> set lines \<and> getAt (board s) (int a) = Val m \<and>
           getAt (board s) (int b) = Val m \<and> getAt (board s) (int c) = Val m \<and>
           gameResult (detectEffect s s) = Win m [a, b, c])) \<and>
    ((\<forall>l\<in>set lines. \<not> fullLine (board s) l) \<and>
     (\<forall>i<9. truthy (getAt (board s) (int i))) \<longrightarrow>
        gameResult (detectEffect s s) = Draw) \<and>
    ((\<forall>l\<in>set lines. \<not> fullLine (board s) l) \<and>
     (\<exists>i<9. \<not> truthy (getAt (board s) (int i))) \<longrightarrow>
        gameResult (detectEffect s s) = InProgress) \<and>
    (board s = EMPTY_BOARD \<longrightarrow> gameResult (detectEffect s s) = InProgress) \<and>
    lines = map (\<lambda>r. (3 * r, 3 * r + 1, 3 * r + 2)) [0, 1, 2] @
            map (\<lambda>c. (c, c + 3, c + 6)) [0, 1, 2] @ [(0, 4, 8), (2, 4, 6)]"
proof -
  have first: "gameResult (detectEffect s s) = Win m [a, b, c]"
    if "lines = pre @ (a, b, c) # post" "\<forall>l\<in>set pre. \<not> fullLine (board s) l"
       "getAt (board s) (int a) = Val m" "getAt (board s) (int b) = Val m"
       "getAt (board s) (int c) = Val m"
    for pre a b c post m
  proof -
    have "fullLine (board s) (a, b, c)" using that by (auto simp: fullLine_iff)
    from scanLines_first [OF that(2) this, of post]
    have "calculateWinner (board s) = (Some m, [a, b, c])"
      using that by (simp add: calculateWinner_def)
    then show ?thesis by (simp add: detectEffect_def gameResult_def)
  qed
  have some: "\<exists>m a b c. (a, b, c) \<in> set lines \<and> getAt (board s) (int a) = Val m \<and>
           getAt (board s) (int b) = Val m \<and> getAt (board s) (int c) = Val m \<and>
           gameResult (detectEffect s s) = Win m [a, b, c]"
    if "\<exists>l\<in>set lines. fullLine (board s) l"
  proof -
    from that obtain pre l post where
      sp: "lines = pre @ l # post" "fullLine (board s) l" "\<forall>l'\<in>set pre. \<not> fullLine (board s) l'"
      by (auto dest!: split_list_first_prop)
    obtain a b c where l: "l = (a, b, c)" by (cases l) auto
    from sp(2) l obtain m where m: "getAt (board s) (int a) = Val m"
      "getAt (board s) (int b) = Val m" "getAt (board s) (int c) = Val m"
      by (auto simp: fullLine_iff)
    have "(a, b, c) \<in> set lines" unfolding sp(1) l by simp
    moreover have "gameResult (detectEffect s s) = Win m [a, b, c]"
      using first [of pre a b c post m] sp l m by simp
    ultimately show ?thesis using m by blast
  qed
  have none: "calculateWinner (board s) = (None, [])"
    if "\<forall>l\<in>set lines. \<not> fullLine (board s) l"
    using that by (simp add: calculateWinner_def scanLines_none)
  have drawn: "gameResult (detectEffect s s) = Draw"
    if "\<forall>l\<in>set lines. \<not> fullLine (board s) l" "\<forall>i<9. truthy (getAt (board s) (int i))"
    using none [OF that(1)] that(2) isDraw_iff [OF len nh]
    by (simp add: detectEffect_def gameResult_def)
  have going: "gameResult (detectEffect s s) = InProgress"
    if "\<forall>l\<in>set lines. \<not> fullLine (board s) l" "\<exists>i<9. \<not> truthy (getAt (board s) (int i))"
    using none [OF that(1)] that(2) isDraw_iff [OF len nh]
    by (simp add: detectEffect_def gameResult_def)
  have empty: "gameResult (detectEffect s s) = InProgress" if "board s = EMPTY_BOARD"
    using that by (simp add: detectEffect_def gameResult_def calculateWinner_EMPTY isDraw_EMPTY)
  show ?thesis
    using first some drawn going empty lines_order fullLine_iff by blast
qed

theorem evaluate_board_witness:
  "gameResult
     (detectEffect
        \<lparr>mode = TwoP,
         board = \<lparr>cells = [Val mX, Val mX, Val mO, Val mO, Val mX, Null, Null, Null, Val mX],
                  named = []\<rparr>,
         xIsNext = False, winner = None, winningLine = [], draw = False\<rparr>
        \<lparr>mode = TwoP,
         board = \<lparr>cells = [Val mX, Val mX, Val mO, Val mO, Val mX, Null, Null, Null, Val mX],
                  named = []\<rparr>,
         xIsNext = False, winner = None, winningLine = [], draw = False\<rparr>) = Win mX [0, 4, 8] \<and>
   gameResult
     (detectEffect
        \<lparr>mode = TwoP,
         board = \<lparr>cells = [Val mX, Val mO, Val mX, Val mX, Val mO, Val mO, Val mO, Val mX, Val mX],
                  named = []\<rparr>,
         xIsNext = False, winner = None, winningLine = [], draw = False\<rparr>
        \<lparr>mode = TwoP,
         board = \<lparr>cells = [Val mX, Val mO, Val mX, Val mX, Val mO, Val mO, Val mO, Val mX, Val mX],
                  named = []\<rparr>,
         xIsNext = False, winner = None, winningLine = [], draw = False\<rparr>) = Draw"
proof -
  let ?d = "\<lparr>mode = TwoP,
         board = \<lparr>cells = [Val mX, Val mX, Val mO, Val mO, Val mX, Null, Null, Null, Val mX],
                  named = []\<rparr>,
         xIsNext = False, winner = None, winningLine = [], draw = False\<rparr>"
  let ?f = "\<lparr>mode = TwoP,
         board = \<lparr>cells = [Val mX, Val mO, Val mX, Val mX, Val mO, Val mO, Val mO, Val mX, Val mX],
                  named = []\<rparr>,
         xIsNext = False, winner = None, winningLine = [], draw = False\<rparr>"
  have d1: "length (cells (board ?d)) = 9" and d2: "Hole \<notin> set (cells (board ?d))"
    by simp_all
  have f1: "length (cells (board ?f)) = 9" and f2: "Hole \<notin> set (cells (board ?f))"
    by simp_all
  have split: "lines = [(0, 1, 2), (3, 4, 5), (6, 7, 8), (0, 3, 6), (1, 4, 7), (2, 5, 8)] @
                 (0, 4, 8) # [(2, 4, 6)]"
    by (simp add: lines_def)
  have before: "\<forall>l\<in>set [(0, 1, 2), (3, 4, 5), (6, 7, 8), (0, 3, 6), (1, 4, 7), (2, 5, 8)].
                  \<not> fullLine (board ?d) l"
    by (simp add: fullLine_def getAt_def isIndex_def)
  have marks: "getAt (board ?d) (int 0) = Val mX" "getAt (board ?d) (int 4) = Val mX"
    "getAt (board ?d) (int 8) = Val mX"
    by (simp_all add: getAt_def isIndex_def)
  have nofull: "\<forall>l\<in>set lines. \<not> fullLine (board ?f) l"
    by (simp add: lines_def fullLine_def getAt_def isIndex_def)
  have allset: "\<forall>i<9. truthy (getAt (board ?f) (int i))"
    by (simp add: all_less_9 getAt_def isIndex_def)
  from evaluate_board [OF d1 d2] split before marks
  have "gameResult (detectEffect ?d ?d) = Win mX [0, 4, 8]" by blast
  moreover from evaluate_board [OF f1 f2] nofull allset
  have "gameResult (detectEffect ?f ?f) = Draw" by blast
  ultimately show ?thesis by simp
qed

section \<open>handlePlay: accepted calls\<close>

text \<open>
  C4, as the code has it.  When a call \<open>handlePlay(index)\<close> from the page is accepted,
  the marker of the player to move is written at \<open>index\<close> of a copy of the board and
  the other array elements stay as they were; winner, winning line and draw are
  recomputed from the new board; the mode stays; and the turn passes to the other marker
  in every case, also when the move wins or draws the game.  Once the recomputed result
  is a win or a draw, every further call from the page is rejected.
\<close>

theorem play_accepted:
  assumes s: "rendered a = cur a"
      and g: "gameResult (cur a) = InProgress"
      and f: "\<not> truthy (getAt (board (cur a)) index)"
  shows "\<exists>a'. dispatch r (Play index) a = Some a' \<and>
           board (cur a') =
             put (slice (board (cur a))) index (if xIsNext (cur a) then mX else mO) \<and>
           getAt (board (cur a')) index = Val (if xIsNext (cur a) then mX else mO) \<and>
           (\<forall>j. isIndex j \<and> j \<noteq> index \<longrightarrow>
                getAt (board (cur a')) j = getAt (board (cur a)) j) \<and>
           winner (cur a') = fst (calculateWinner (board (cur a'))) \<and>
           draw (cur a') =
             (fst (calculateWinner (board (cur a'))) = None \<and> isDraw (board (cur a'))) \<and>
           (winner (cur a') \<noteq> None \<longrightarrow>
              winningLine (cur a') = snd (calculateWinner (board (cur a')))) \<and>
           xIsNext (cur a') = (\<not> xIsNext (cur a)) \<and>
           mode (cur a') = mode (cur a) \<and>
           rendered a' = cur a' \<and>
           (gameResult (cur a') \<noteq> InProgress \<longrightarrow>
              (\<forall>j. dispatch r (Play j) a' = Some a'))"
proof -
  let ?b = "put (slice (board (cur a))) index (if xIsNext (cur a) then mX else mO)"
  let ?t = "(cur a)\<lparr>board := ?b, xIsNext := \<not> xIsNext (cur a)\<rparr>"
  from play_step [OF s g f, of r] obtain ts where
    d: "dispatch r (Play index) a =
          Some \<lparr>cur = detectEffect ?t ?t, rendered = detectEffect ?t ?t, timers = timers a @ ts\<rparr>"
    by blast
  let ?a' = "\<lparr>cur = detectEffect ?t ?t, rendered = detectEffect ?t ?t, timers = timers a @ ts\<rparr>"
  have b: "board (cur ?a') = ?b" by (simp add: detectEffect_keeps)
  have 1: "getAt (board (cur ?a')) index = Val (if xIsNext (cur a) then mX else mO)"
    unfolding b by (rule getAt_put_same)
  have 2: "\<forall>j. isIndex j \<and> j \<noteq> index \<longrightarrow> getAt (board (cur ?a')) j = getAt (board (cur a)) j"
    unfolding b by (simp add: getAt_put_other getAt_slice)
  have 3: "winner (cur ?a') = fst (calculateWinner (board (cur ?a')))"
    "draw (cur ?a') = (fst (calculateWinner (board (cur ?a'))) = None \<and> isDraw (board (cur ?a')))"
    "winner (cur ?a') \<noteq> None \<longrightarrow> winningLine (cur ?a') = snd (calculateWinner (board (cur ?a')))"
    by (simp_all add: detectEffect_result detectEffect_keeps)
  have 4: "xIsNext (cur ?a') = (\<not> xIsNext (cur a))" "mode (cur ?a') = mode (cur a)"
    "rendered ?a' = cur ?a'"
    by (simp_all add: detectEffect_keeps)
  have 5: "gameResult (cur ?a') \<noteq> InProgress \<longrightarrow> (\<forall>j. dispatch r (Play j) ?a' = Some ?a')"
  proof (intro impI allI)
    fix j
    assume "gameResult (cur ?a') \<noteq> InProgress"
    then have "handlePlay (rendered ?a') j (cur ?a') = None"
      by (simp add: handlePlay_over)
    then show "dispatch r (Play j) ?a' = Some ?a'" by simp
  qed
  from d b 1 2 3 4 5 show ?thesis by blast
qed

theorem play_accepted_witness:
  "\<exists>a'. dispatch 0 (Play 4) \<lparr>cur = initial, rendered = initial, timers = []\<rparr> = Some a' \<and>
        getAt (board (cur a')) 4 = Val mX \<and>
        xIsNext (cur a') = False \<and>
        mode (cur a') = TwoP"
proof -
  let ?a = "\<lparr>cur = initial, rendered = initial, timers = []\<rparr>"
  have h1: "rendered ?a = cur ?a" by simp
  have h2: "gameResult (cur ?a) = InProgress" by (simp add: gameResult_def initial_def)
  have h3: "\<not> truthy (getAt (board (cur ?a)) 4)"
    by (simp add: initial_def EMPTY_BOARD_cells getAt_def isIndex_def)
  from play_accepted [OF h1 h2 h3, of 0] obtain a' where
    "dispatch 0 (Play 4) ?a = Some a'"
    "getAt (board (cur a')) 4 = Val (if xIsNext (cur ?a) then mX else mO)"
    "xIsNext (cur a') = (\<not> xIsNext (cur ?a))"
    "mode (cur a') = mode (cur ?a)"
    by blast
  then show ?thesis by (simp add: initial_def)
qed

text \<open>
  The claim as stated fails on a winning move: after X at 0, O at 4, X at 1 and O at 5 it
  is X's turn; \<open>handlePlay(2)\<close> completes the top row, the result is the win of X, and the
  turn has passed to O all the same.
\<close>

theorem turn_passes_on_win_counterexample:
  "Option.bind (mount 0) (run 0 [Play 0, Play 4, Play 1, Play 5]) =
     Some
     \<lparr>cur = \<lparr>mode = TwoP,
              board = \<lparr>cells = [Val mX, Val mX, Null, Null, Val mO, Val mO, Null, Null, Null],
                       named = []\<rparr>,
              xIsNext = True, winner = None, winningLine = [], draw = False\<rparr>,
     rendered = \<lparr>mode = TwoP,
                   board = \<lparr>cells = [Val mX, Val mX, Null, Null, Val mO, Val mO, Null, Null, Null],
                            named = []\<rparr>,
                   xIsNext = True, winner = None, winningLine = [], draw = False\<rparr>,
     timers = []\<rparr> \<and>
   Option.bind (mount 0) (run 0 [Play 0, Play 4, Play 1, Play 5, Play 2]) =
     Some
     \<lparr>cur = \<lparr>mode = TwoP,
              board = \<lparr>cells = [Val mX, Val mX, Val mX, Null, Val mO, Val mO, Null, Null, Null],
                       named = []\<rparr>,
              xIsNext = False, winner = Some mX, winningLine = [0, 1, 2], draw = False\<rparr>,
     rendered = \<lparr>mode = TwoP,
                   board = \<lparr>cells = [Val mX, Val mX, Val mX, Null, Val mO, Val mO, Null, Null, Null],
                            named = []\<rparr>,
                   xIsNext = False, winner = Some mX, winningLine = [0, 1, 2], draw = False\<rparr>,
     timers = []\<rparr>"
  by (simp add: step_defs board_defs)

section \<open>Changing the mode\<close>

text \<open>
  What \<open>setMode(m)\<close> does to the six state variables.  It always returns.  With a
  mode other than the current one, the effect on \<open>[mode]\<close> runs \<open>resetGame\<close>, and the
  state variables end as the specification's \<open>reset(m)\<close> describes them: empty board, X
  to move, game in progress, mode \<open>m\<close>.  With the mode that is already in effect nothing
  changes.  The timers are another matter, see below.
\<close>

lemma setMode_restarts:
  assumes "rendered a = cur a"
  shows "\<exists>a'. dispatch r (SetMode m) a = Some a' \<and>
           (if m = mode (cur a) then a' = a
            else cur a' = spec_reset (Some m) (cur a) \<and> rendered a' = cur a')"
proof (cases "m = mode (cur a)")
  case True
  then have "a\<lparr>cur := (cur a)\<lparr>mode := m\<rparr>\<rparr> = a" by simp
  then show ?thesis using True assms by (simp add: settle_fix)
next
  case False
  let ?s = "(cur a)\<lparr>mode := m\<rparr>"
  let ?a0 = "a\<lparr>cur := ?s\<rparr>"
  have ne: "cur ?a0 \<noteq> rendered ?a0"
  proof
    assume "cur ?a0 = rendered ?a0"
    then have "mode (cur ?a0) = mode (rendered ?a0)" by simp
    with False assms show False by simp
  qed
  have c: "cur (commit r False ?a0) = resetGame ?s"
    using False assms by (simp add: commit_def Let_def)
  have "dispatch r (SetMode m) a = settle r (commit r False ?a0)"
    using settle_step [OF ne, of r] by simp
  also from settle_restarted [OF c] have "\<dots> =
      Some \<lparr>cur = resetGame ?s, rendered = resetGame ?s, timers = timers (commit r False ?a0)\<rparr>" .
  finally show ?thesis using False
    by (simp add: spec_reset_def resetGame_def EMPTY_BOARD_def BOARD_SIZE_def)
qed

text \<open>\<open>resetGame\<close> itself never starts a timer.\<close>

lemma reset_keeps_timers:
  "dispatch r Reset a =
     Some \<lparr>cur = resetGame (cur a), rendered = resetGame (cur a), timers = timers a\<rparr>"
  using settle_restarted [of "a\<lparr>cur := resetGame (cur a)\<rparr>" "cur a" r] by simp

text \<open>
  C8 does not hold of the code.  A mode change is not the same as a reset to that mode:
  the render of the new mode runs the computer-move effect before the effect on
  \<open>[mode]\<close> resets the game, and that render still shows the old board.  In "2p" mode,
  after X has played cell 0, O is to move; \<open>setMode("cpu")\<close> empties the board, as a
  reset would, but it has also started a timer for cell 4 that closes over the old board,
  where a reset starts none.  When the timer runs out the restarted game is overwritten
  with the old X at 0 and an O at 4, which is not the state \<open>reset("cpu")\<close> describes.
\<close>

theorem mode_change_queues_stale_move:
  "Option.bind (mount 0) (run 0 [Play 0]) =
     Some
     \<lparr>cur = \<lparr>mode = TwoP,
             board = \<lparr>cells = [Val mX, Null, Null, Null, Null, Null, Null, Null, Null],
                      named = []\<rparr>,
             xIsNext = False, winner = None, winningLine = [], draw = False\<rparr>,
      rendered = \<lparr>mode = TwoP,
                  board = \<lparr>cells = [Val mX, Null, Null, Null, Null, Null, Null, Null, Null],
                           named = []\<rparr>,
                  xIsNext = False, winner = None, winningLine = [], draw = False\<rparr>,
      timers = []\<rparr> \<and>
   Option.bind (mount 0) (run 0 [Play 0, Reset]) =
     Some
     \<lparr>cur = \<lparr>mode = TwoP,
             board = \<lparr>cells = [Null, Null, Null, Null, Null, Null, Null, Null, Null],
                      named = []\<rparr>,
             xIsNext = True, winner = None, winningLine = [], draw = False\<rparr>,
      rendered = \<lparr>mode = TwoP,
                  board = \<lparr>cells = [Null, Null, Null, Null, Null, Null, Null, Null, Null],
                           named = []\<rparr>,
                  xIsNext = True, winner = None, winningLine = [], draw = False\<rparr>,
      timers = []\<rparr> \<and>
   Option.bind (mount 0) (run 0 [Play 0, SetMode Cpu]) =
     Some
     \<lparr>cur = \<lparr>mode = Cpu,
             board = \<lparr>cells = [Null, Null, Null, Null, Null, Null, Null, Null, Null],
                      named = []\<rparr>,
             xIsNext = True, winner = None, winningLine = [], draw = False\<rparr>,
      rendered = \<lparr>mode = Cpu,
                  board = \<lparr>cells = [Null, Null, Null, Null, Null, Null, Null, Null, Null],
                           named = []\<rparr>,
                  xIsNext = True, winner = None, winningLine = [], draw = False\<rparr>,
      timers = [(\<lparr>mode = Cpu,
                   board = \<lparr>cells = [Val mX, Null, Null, Null, Null, Null, Null, Null, Null],
                            named = []\<rparr>,
                   xIsNext = False, winner = None, winningLine = [], draw = False\<rparr>, 4)]\<rparr> \<and>
   Option.bind (mount 0) (run 0 [Play 0, SetMode Cpu, Fire]) =
     Some
     \<lparr>cur = \<lparr>mode = Cpu,
             board = \<lparr>cells = [Val mX, Null, Null, Null, Val mO, Null, Null, Null, Null],
                      named = []\<rparr>,
             xIsNext = True, winner = None, winningLine = [], draw = False\<rparr>,
      rendered = \<lparr>mode = Cpu,
                  board = \<lparr>cells = [Val mX, Null, Null, Null, Val mO, Null, Null, Null, Null],
                           named = []\<rparr>,
                  xIsNext = True, winner = None, winningLine = [], draw = False\<rparr>,
      timers = []\<rparr> \<and>
   \<lparr>mode = Cpu,
       board = \<lparr>cells = [Val mX, Null, Null, Null, Val mO, Null, Null, Null, Null],
                named = []\<rparr>,
       xIsNext = True, winner = None, winningLine = [], draw = False\<rparr> \<noteq>
   spec_reset (Some Cpu)
     \<lparr>mode = TwoP,
       board = \<lparr>cells = [Val mX, Null, Null, Null, Null, Null, Null, Null, Null],
                named = []\<rparr>,
       xIsNext = False, winner = None, winningLine = [], draw = False\<rparr>"
proof -
  have nine: "replicate 9 (Null :: marker slot) =
                [Null, Null, Null, Null, Null, Null, Null, Null, Null]"
    by (simp add: numeral_eq_Suc)
  show ?thesis
    by (simp add: step_defs board_defs cpuMove_after_corner spec_reset_def nine)
qed

theorem mode_change_queues_stale_move_witness:
  "Option.bind (mount 0) (run 0 [Play 0, SetMode Cpu, Fire]) \<noteq>
   Option.bind (mount 0) (run 0 [Play 0, SetMode Cpu])"
  using mode_change_queues_stale_move by simp

section \<open>A game of five moves\<close>

text \<open>
  C9.  On the freshly mounted component, which is in "2p" mode, the calls
  \<open>handlePlay(0)\<close>, \<open>handlePlay(4)\<close>, \<open>handlePlay(1)\<close>, \<open>handlePlay(5)\<close>,
  \<open>handlePlay(2)\<close> leave X in cells 0, 1 and 2 (and O in 4 and 5), with the result the
  win of X on the line 0, 1, 2; a following \<open>handlePlay(3)\<close> changes nothing.
\<close>

theorem top_row_scenario:
  "Option.bind (mount r) (run r [Play 0, Play 4, Play 1, Play 5, Play 2]) =
     Some
     \<lparr>cur = \<lparr>mode = TwoP,
              board = \<lparr>cells = [Val mX, Val mX, Val mX, Null, Val mO, Val mO, Null, Null, Null],
                       named = []\<rparr>,
              xIsNext = False, winner = Some mX, winningLine = [0, 1, 2], draw = False\<rparr>,
     rendered = \<lparr>mode = TwoP,
                   board = \<lparr>cells = [Val mX, Val mX, Val mX, Null, Val mO, Val mO, Null, Null, Null],
                            named = []\<rparr>,
                   xIsNext = False, winner = Some mX, winningLine = [0, 1, 2], draw = False\<rparr>,
     timers = []\<rparr> \<and>
   gameResult
     \<lparr>mode = TwoP,
       board = \<lparr>cells = [Val mX, Val mX, Val mX, Null, Val mO, Val mO, Null, Null, Null],
                named = []\<rparr>,
       xIsNext = False, winner = Some mX, winningLine = [0, 1, 2], draw = False\<rparr> = Win mX [0, 1, 2] \<and>
   dispatch r (Play 3)
     \<lparr>cur = \<lparr>mode = TwoP,
              board = \<lparr>cells = [Val mX, Val mX, Val mX, Null, Val mO, Val mO, Null, Null, Null],
                       named = []\<rparr>,
              xIsNext = False, winner = Some mX, winningLine = [0, 1, 2], draw = False\<rparr>,
     rendered = \<lparr>mode = TwoP,
                   board = \<lparr>cells = [Val mX, Val mX, Val mX, Null, Val mO, Val mO, Null, Null, Null],
                            named = []\<rparr>,
                   xIsNext = False, winner = Some mX, winningLine = [0, 1, 2], draw = False\<rparr>,
     timers = []\<rparr> =
     Some
     \<lparr>cur = \<lparr>mode = TwoP,
              board = \<lparr>cells = [Val mX, Val mX, Val mX, Null, Val mO, Val mO, Null, Null, Null],
                       named = []\<rparr>,
              xIsNext = False, winner = Some mX, winningLine = [0, 1, 2], draw = False\<rparr>,
     rendered = \<lparr>mode = TwoP,
                   board = \<lparr>cells = [Val mX, Val mX, Val mX, Null, Val mO, Val mO, Null, Null, Null],
                            named = []\<rparr>,
                   xIsNext = False, winner = Some mX, winningLine = [0, 1, 2], draw = False\<rparr>,
     timers = []\<rparr>"
  by (simp add: step_defs board_defs)

theorem top_row_scenario_witness:
  "Option.bind (mount 0) (run 0 [Play 0, Play 4, Play 1, Play 5, Play 2, Play 3]) =
     Some
     \<lparr>cur = \<lparr>mode = TwoP,
              board = \<lparr>cells = [Val mX, Val mX, Val mX, Null, Val mO, Val mO, Null, Null, Null],
                       named = []\<rparr>,
              xIsNext = False, winner = Some mX, winningLine = [0, 1, 2], draw = False\<rparr>,
     rendered = \<lparr>mode = TwoP,
                   board = \<lparr>cells = [Val mX, Val mX, Val mX, Null, Val mO, Val mO, Null, Null, Null],
                            named = []\<rparr>,
                   xIsNext = False, winner = Some mX, winningLine = [0, 1, 2], draw = False\<rparr>,
     timers = []\<rparr>"
  using top_row_scenario [of 0] by (simp add: step_defs board_defs)

section \<open>A timer that outlives its game\<close>

text \<open>
  C3 does not hold of the code.  The computer-move effect starts a timer and returns no
  cleanup, and neither \<open>resetGame\<close> nor the mode change clears it; the timer calls the
  \<open>handlePlay\<close> of the render that started it, which still sees the old board.  In
  "cpu" mode, after X has played cell 0, a reset empties the board with the timer still
  pending; when the timer runs out, the board of the new game is overwritten with the
  old X at 0 and an O at 4.  The same happens when the mode is changed back to "2p" in
  place of the reset.
\<close>

theorem stale_timer_overwrites_new_game:
  "Option.bind (mount 0) (run 0 [SetMode Cpu, Play 0, Reset]) =
     Some
     \<lparr>cur = \<lparr>mode = Cpu,
              board = \<lparr>cells = [Null, Null, Null, Null, Null, Null, Null, Null, Null],
                       named = []\<rparr>,
              xIsNext = True, winner = None, winningLine = [], draw = False\<rparr>,
     rendered = \<lparr>mode = Cpu,
                   board = \<lparr>cells = [Null, Null, Null, Null, Null, Null, Null, Null, Null],
                            named = []\<rparr>,
                   xIsNext = True, winner = None, winningLine = [], draw = False\<rparr>,
     timers = [(\<lparr>mode = Cpu,
               board = \<lparr>cells = [Val mX, Null, Null, Null, Null, Null, Null, Null, Null],
                        named = []\<rparr>,
               xIsNext = False, winner = None, winningLine = [], draw = False\<rparr>, 4)]\<rparr> \<and>
   Option.bind (mount 0) (run 0 [SetMode Cpu, Play 0, Reset, Fire]) =
     Some
     \<lparr>cur = \<lparr>mode = Cpu,
              board = \<lparr>cells = [Val mX, Null, Null, Null, Val mO, Null, Null, Null, Null],
                       named = []\<rparr>,
              xIsNext = True, winner = None, winningLine = [], draw = False\<rparr>,
     rendered = \<lparr>mode = Cpu,
                   board = \<lparr>cells = [Val mX, Null, Null, Null, Val mO, Null, Null, Null, Null],
                            named = []\<rparr>,
                   xIsNext = True, winner = None, winningLine = [], draw = False\<rparr>,
     timers = []\<rparr> \<and>
   Option.bind (mount 0) (run 0 [SetMode Cpu, Play 0, SetMode TwoP]) =
     Some
     \<lparr>cur = \<lparr>mode = TwoP,
              board = \<lparr>cells = [Null, Null, Null, Null, Null, Null, Null, Null, Null],
                       named = []\<rparr>,
              xIsNext = True, winner = None, winningLine = [], draw = False\<rparr>,
     rendered = \<lparr>mode = TwoP,
                   board = \<lparr>cells = [Null, Null, Null, Null, Null, Null, Null, Null, Null],
                            named = []\<rparr>,
                   xIsNext = True, winner = None, winningLine = [], draw = False\<rparr>,
     timers = [(\<lparr>mode = Cpu,
               board = \<lparr>cells = [Val mX, Null, Null, Null, Null, Null, Null, Null, Null],
                        named = []\<rparr>,
               xIsNext = False, winner = None, winningLine = [], draw = False\<rparr>, 4)]\<rparr> \<and>
   Option.bind (mount 0) (run 0 [SetMode Cpu, Play 0, SetMode TwoP, Fire]) =
     Some
     \<lparr>cur = \<lparr>mode = TwoP,
              board = \<lparr>cells = [Val mX, Null, Null, Null, Val mO, Null, Null, Null, Null],
                       named = []\<rparr>,
              xIsNext = True, winner = None, winningLine = [], draw = False\<rparr>,
     rendered = \<lparr>mode = TwoP,
                   board = \<lparr>cells = [Val mX, Null, Null, Null, Val mO, Null, Null, Null, Null],
                            named = []\<rparr>,
                   xIsNext = True, winner = None, winningLine = [], draw = False\<rparr>,
     timers = []\<rparr>"
  by (simp add: step_defs board_defs cpuMove_after_corner)

theorem stale_timer_overwrites_new_game_witness:
  "Option.bind (mount 0) (run 0 [SetMode Cpu, Play 0, Reset, Fire]) \<noteq>
   Option.bind (mount 0) (run 0 [SetMode Cpu, Play 0, Reset])"
  using stale_timer_overwrites_new_game by simp

text \<open>
  The same stale closure lets the computer move after the game is over.  In "cpu" mode
  with X on 0, 6, 8 and O on 2, 3, 4, X plays 7 and wins on the bottom row.  The
  computer-move effect of that very render still sees no winner and starts a timer for
  cell 5; when it runs out the O is placed, and since the row 3, 4, 5 comes before the
  row 6, 7, 8 in \<open>lines\<close>, the recorded winner changes from X to O.
\<close>

lemma computer_moves_after_human_win:
  "Option.bind (mount 0)
     (run 0 [SetMode Cpu, Play 0, Fire, Play 8, Fire, Play 6, Fire, Play 7]) =
     Some
     \<lparr>cur = \<lparr>mode = Cpu,
              board = \<lparr>cells = [Val mX, Null, Val mO, Val mO, Val mO, Null, Val mX, Val mX, Val mX],
                       named = []\<rparr>,
              xIsNext = False, winner = Some mX, winningLine = [6, 7, 8], draw = False\<rparr>,
     rendered = \<lparr>mode = Cpu,
                   board = \<lparr>cells = [Val mX, Null, Val mO, Val mO, Val mO, Null, Val mX, Val mX, Val mX],
                            named = []\<rparr>,
                   xIsNext = False, winner = Some mX, winningLine = [6, 7, 8], draw = False\<rparr>,
     timers = [(\<lparr>mode = Cpu,
               board = \<lparr>cells = [Val mX, Null, Val mO, Val mO, Val mO, Null, Val mX, Val mX, Val mX],
                        named = []\<rparr>,
               xIsNext = False, winner = None, winningLine = [], draw = False\<rparr>, 5)]\<rparr> \<and>
   Option.bind (mount 0)
     (run 0 [SetMode Cpu, Play 0, Fire, Play 8, Fire, Play 6, Fire, Play 7, Fire]) =
     Some
     \<lparr>cur = \<lparr>mode = Cpu,
              board = \<lparr>cells = [Val mX, Null, Val mO, Val mO, Val mO, Val mO, Val mX, Val mX, Val mX],
                       named = []\<rparr>,
              xIsNext = True, winner = Some mO, winningLine = [3, 4, 5], draw = False\<rparr>,
     rendered = \<lparr>mode = Cpu,
                   board = \<lparr>cells = [Val mX, Null, Val mO, Val mO, Val mO, Val mO, Val mX, Val mX, Val mX],
                            named = []\<rparr>,
                   xIsNext = True, winner = Some mO, winningLine = [3, 4, 5], draw = False\<rparr>,
     timers = []\<rparr>"
  by (simp add: step_defs board_defs cpuMove_def completes_def upt_0_9 pick_def)

section \<open>The computer's choice\<close>

text \<open>
  C5.  On a board of nine cells, each null or a marker, and with \<open>Math.random()\<close> in
  its range, \<open>cpuMove\<close> follows a strict order of tiers.  A cell completes a win for a
  marker when it is free and \<open>calculateWinner\<close> reports that marker on the copy with the
  cell marked; on a board without a full line that is: the cell is free and lies on a
  line whose two other cells hold the marker.  If some cell completes a win for the
  player, the result is the smallest such cell, whether or not a block exists too;
  otherwise, if some cell completes a win for the opponent, the smallest such cell;
  otherwise cell 4 if it is free; otherwise a free corner among 0, 2, 6, 8 if there is
  one; otherwise some free cell if there is one.
\<close>

theorem cpuMove_priority:
  assumes len: "length (cells sq) = 9" and nh: "Hole \<notin> set (cells sq)"
      and r: "0 \<le> r" "r < 1"
  shows
   "((\<forall>l\<in>set lines. \<not> fullLine sq l) \<longrightarrow>
       (\<forall>who i. completes sq who i \<longleftrightarrow>
          \<not> truthy (getAt sq (int i)) \<and>
          (\<exists>(a, b, c)\<in>set lines. i \<in> {a, b, c} \<and>
             (\<forall>k\<in>{a, b, c}. k \<noteq> i \<longrightarrow> getAt sq (int k) = Val who)))) \<and>
    ((\<exists>i<9. completes sq p i) \<longrightarrow>
       (\<exists>i<9. cpuMove r sq p = Some i \<and> completes sq p i \<and>
          (\<forall>j<i. \<not> completes sq p j))) \<and>
    ((\<forall>i<9. \<not> completes sq p i) \<and> (\<exists>i<9. completes sq (if p = mX then mO else mX) i) \<longrightarrow>
       (\<exists>i<9. cpuMove r sq p = Some i \<and> completes sq (if p = mX then mO else mX) i \<and>
          (\<forall>j<i. \<not> completes sq (if p = mX then mO else mX) j))) \<and>
    ((\<forall>i<9. \<not> completes sq p i \<and> \<not> completes sq (if p = mX then mO else mX) i) \<and>
     \<not> truthy (getAt sq 4) \<longrightarrow>
       cpuMove r sq p = Some 4) \<and>
    ((\<forall>i<9. \<not> completes sq p i \<and> \<not> completes sq (if p = mX then mO else mX) i) \<and>
     truthy (getAt sq 4) \<and> (\<exists>c\<in>{0, 2, 6, 8}. \<not> truthy (getAt sq (int c))) \<longrightarrow>
       (\<exists>i\<in>{0, 2, 6, 8}. cpuMove r sq p = Some i \<and> \<not> truthy (getAt sq (int i)))) \<and>
    ((\<forall>i<9. \<not> completes sq p i \<and> \<not> completes sq (if p = mX then mO else mX) i) \<and>
     truthy (getAt sq 4) \<and> (\<forall>c\<in>{0, 2, 6, 8}. truthy (getAt sq (int c))) \<and>
     (\<exists>i<9. \<not> truthy (getAt sq (int i))) \<longrightarrow>
       (\<exists>i<9. cpuMove r sq p = Some i \<and> \<not> truthy (getAt sq (int i))))"
proof -
  let ?opp = "if p = mX then mO else mX"
  let ?corners = "filter (\<lambda>i. \<not> truthy (getAt sq (int i))) [0, 2, 6, 8]"
  have win: "\<exists>i<9. cpuMove r sq p = Some i \<and> completes sq p i \<and> (\<forall>j<i. \<not> completes sq p j)"
    if "\<exists>i<9. completes sq p i"
  proof -
    from that have "find (completes sq p) [0..<9] \<noteq> None" by (simp add: find_upt_None)
    then obtain i where i: "find (completes sq p) [0..<9] = Some i" by auto
    then have "cpuMove r sq p = Some i" by (simp add: cpuMove_def)
    with i show ?thesis by (auto simp: find_upt_Some)
  qed
  have block: "\<exists>i<9. cpuMove r sq p = Some i \<and> completes sq ?opp i \<and>
                 (\<forall>j<i. \<not> completes sq ?opp j)"
    if "\<forall>i<9. \<not> completes sq p i" "\<exists>i<9. completes sq ?opp i"
  proof -
    from that(1) have n: "find (completes sq p) [0..<9] = None" by (simp add: find_upt_None)
    from that(2) have "find (completes sq ?opp) [0..<9] \<noteq> None" by (simp add: find_upt_None)
    then obtain i where i: "find (completes sq ?opp) [0..<9] = Some i" by auto
    with n have "cpuMove r sq p = Some i" by (simp add: cpuMove_def)
    with i show ?thesis by (auto simp: find_upt_Some)
  qed
  have rest: "cpuMove r sq p =
      (if \<not> truthy (getAt sq 4) then Some 4
       else if ?corners \<noteq> [] then Some (pick r ?corners)
       else if keepIndexes (freeIndexes sq) \<noteq> [] then Some (pick r (keepIndexes (freeIndexes sq)))
       else None)"
    if "\<forall>i<9. \<not> completes sq p i \<and> \<not> completes sq ?opp i"
  proof -
    from that have "find (completes sq p) [0..<9] = None" "find (completes sq ?opp) [0..<9] = None"
      by (simp_all add: find_upt_None)
    then show ?thesis by (simp add: cpuMove_def Let_def)
  qed
  have centre: "cpuMove r sq p = Some 4"
    if "\<forall>i<9. \<not> completes sq p i \<and> \<not> completes sq ?opp i" "\<not> truthy (getAt sq 4)"
    using rest [OF that(1)] that(2) by simp
  have corner: "\<exists>i\<in>{0, 2, 6, 8}. cpuMove r sq p = Some i \<and> \<not> truthy (getAt sq (int i))"
    if "\<forall>i<9. \<not> completes sq p i \<and> \<not> completes sq ?opp i" "truthy (getAt sq 4)"
       "\<exists>c\<in>{0, 2, 6, 8}. \<not> truthy (getAt sq (int c))"
  proof -
    from that(3) have ne: "?corners \<noteq> []" unfolding filter_empty_conv by simp
    from pick_in_set [OF r ne] have "pick r ?corners \<in> set [0, 2, 6, 8] \<and>
        \<not> truthy (getAt sq (int (pick r ?corners)))" by (rule in_filterD)
    moreover have "cpuMove r sq p = Some (pick r ?corners)"
      using rest [OF that(1)] that(2) ne by simp
    moreover have "set [0, 2, 6, 8] = {0, 2, 6, 8 :: nat}" by simp
    ultimately show ?thesis by metis
  qed
  have other: "\<exists>i<9. cpuMove r sq p = Some i \<and> \<not> truthy (getAt sq (int i))"
    if "\<exists>i<9. \<not> truthy (getAt sq (int i))"
  proof -
    from that cpuMove_None_iff [OF len nh, of r p] obtain i where "cpuMove r sq p = Some i"
      by auto
    with cpuMove_Some_legal [OF len r this] show ?thesis by auto
  qed
  have tiers:
   "((\<exists>i<9. completes sq p i) \<longrightarrow>
       (\<exists>i<9. cpuMove r sq p = Some i \<and> completes sq p i \<and>
          (\<forall>j<i. \<not> completes sq p j))) \<and>
    ((\<forall>i<9. \<not> completes sq p i) \<and> (\<exists>i<9. completes sq ?opp i) \<longrightarrow>
       (\<exists>i<9. cpuMove r sq p = Some i \<and> completes sq ?opp i \<and>
          (\<forall>j<i. \<not> completes sq ?opp j))) \<and>
    ((\<forall>i<9. \<not> completes sq p i \<and> \<not> completes sq ?opp i) \<and>
     \<not> truthy (getAt sq 4) \<longrightarrow>
       cpuMove r sq p = Some 4) \<and>
    ((\<forall>i<9. \<not> completes sq p i \<and> \<not> completes sq ?opp i) \<and>
     truthy (getAt sq 4) \<and> (\<exists>c\<in>{0, 2, 6, 8}. \<not> truthy (getAt sq (int c))) \<longrightarrow>
       (\<exists>i\<in>{0, 2, 6, 8}. cpuMove r sq p = Some i \<and> \<not> truthy (getAt sq (int i)))) \<and>
    ((\<forall>i<9. \<not> completes sq p i \<and> \<not> completes sq ?opp i) \<and>
     truthy (getAt sq 4) \<and> (\<forall>c\<in>{0, 2, 6, 8}. truthy (getAt sq (int c))) \<and>
     (\<exists>i<9. \<not> truthy (getAt sq (int i))) \<longrightarrow>
       (\<exists>i<9. cpuMove r sq p = Some i \<and> \<not> truthy (getAt sq (int i))))"
    using win block centre corner other by blast
  have line: "(\<forall>l\<in>set lines. \<not> fullLine sq l) \<longrightarrow>
       (\<forall>who i. completes sq who i \<longleftrightarrow>
          \<not> truthy (getAt sq (int i)) \<and>
          (\<exists>(a, b, c)\<in>set lines. i \<in> {a, b, c} \<and>
             (\<forall>k\<in>{a, b, c}. k \<noteq> i \<longrightarrow> getAt sq (int k) = Val who)))"
    using completes_line [of sq] by blast
  from line tiers show ?thesis by (rule conjI)
qed

text \<open>
  With X on 0 and 1 and O on 3 and 4, cell 5 wins for O and cell 2 would block X: the
  choice for O is 5.  With O on 3 only, nothing wins for O and the choice is the block 2.
\<close>

theorem cpuMove_priority_witness:
  "cpuMove 0
     \<lparr>cells = [Val mX, Val mX, Null, Val mO, Val mO, Null, Null, Null, Null],
       named = []\<rparr> mO = Some 5 \<and>
   completes
     \<lparr>cells = [Val mX, Val mX, Null, Val mO, Val mO, Null, Null, Null, Null],
       named = []\<rparr> mX 2 \<and>
   cpuMove 0
     \<lparr>cells = [Val mX, Val mX, Null, Val mO, Null, Null, Null, Null, Null],
       named = []\<rparr> mO = Some 2"
proof -
  let ?w = "\<lparr>cells = [Val mX, Val mX, Null, Val mO, Val mO, Null, Null, Null, Null],
       named = []\<rparr>"
  let ?b = "\<lparr>cells = [Val mX, Val mX, Null, Val mO, Null, Null, Null, Null, Null],
       named = []\<rparr>"
  have w1: "length (cells ?w) = 9" and w2: "Hole \<notin> set (cells ?w)" by simp_all
  have b1: "length (cells ?b) = 9" and b2: "Hole \<notin> set (cells ?b)" by simp_all
  have r: "(0::rat) \<le> 0" "(0::rat) < 1" by simp_all
  have w5: "completes ?w mO 5" by (simp add: completes_def board_defs)
  have wn: "\<forall>i<9. i \<noteq> 5 \<longrightarrow> \<not> completes ?w mO i"
    by (simp add: all_less_9 completes_def board_defs)
  have wx: "completes ?w mX 2" by (simp add: completes_def board_defs)
  have bn: "\<forall>i<9. \<not> completes ?b mO i"
    by (simp add: all_less_9 completes_def board_defs)
  have b2x: "completes ?b mX 2" by (simp add: completes_def board_defs)
  have bx: "\<forall>i<9. i \<noteq> 2 \<longrightarrow> \<not> completes ?b mX i"
    by (simp add: all_less_9 completes_def board_defs)
  have lt: "(5::nat) < 9" "(2::nat) < 9" by simp_all
  from cpuMove_priority [OF w1 w2 r, of mO]
  have "(\<exists>i<9. completes ?w mO i) \<longrightarrow>
          (\<exists>i<9. cpuMove 0 ?w mO = Some i \<and> completes ?w mO i \<and>
             (\<forall>j<i. \<not> completes ?w mO j))"
    by (rule conjunct1 [OF conjunct2])
  with w5 lt(1) obtain i where "i < 9" "cpuMove 0 ?w mO = Some i" "completes ?w mO i"
    by blast
  with wn have 1: "cpuMove 0 ?w mO = Some 5" by blast
  have opp: "(if mO = mX then mO else mX) = mX" by simp
  from cpuMove_priority [OF b1 b2 r, of mO, unfolded opp]
  have "(\<forall>i<9. \<not> completes ?b mO i) \<and> (\<exists>i<9. completes ?b mX i) \<longrightarrow>
          (\<exists>i<9. cpuMove 0 ?b mO = Some i \<and> completes ?b mX i \<and>
             (\<forall>j<i. \<not> completes ?b mX j))"
    by (rule conjunct1 [OF conjunct2 [OF conjunct2]])
  with bn b2x lt(2) obtain j where "j < 9" "cpuMove 0 ?b mO = Some j" "completes ?b mX j"
    by blast
  with bx have 2: "cpuMove 0 ?b mO = Some 2" by blast
  from 1 wx 2 show ?thesis by simp
qed

text \<open>
  C6.  On a board of nine cells, each null or a marker, \<open>cpuMove\<close> returns null exactly
  when all nine cells hold a marker; so with a free cell it returns an index.
\<close>

theorem cpuMove_null_iff_full:
  assumes "length (cells sq) = 9" and "Hole \<notin> set (cells sq)"
  shows "(cpuMove r sq p = None \<longleftrightarrow> (\<forall>i<9. truthy (getAt sq (int i)))) \<and>
         ((\<exists>i<9. \<not> truthy (getAt sq (int i))) \<longrightarrow> (\<exists>i. cpuMove r sq p = Some i))"
  using cpuMove_None_iff [OF assms, of r p] by auto

theorem cpuMove_null_iff_full_witness:
  "cpuMove 0
     \<lparr>cells = [Val mX, Val mO, Val mX, Val mX, Val mO, Val mO, Val mO, Val mX, Val mX],
       named = []\<rparr> mO = None \<and>
   (\<exists>i. cpuMove 0
     \<lparr>cells = [Val mX, Val mO, Val mX, Val mX, Val mO, Val mO, Val mO, Null, Val mX],
       named = []\<rparr> mO = Some i)"
proof -
  let ?f = "\<lparr>cells = [Val mX, Val mO, Val mX, Val mX, Val mO, Val mO, Val mO, Val mX, Val mX],
       named = []\<rparr>"
  let ?o = "\<lparr>cells = [Val mX, Val mO, Val mX, Val mX, Val mO, Val mO, Val mO, Null, Val mX],
       named = []\<rparr>"
  have f1: "length (cells ?f) = 9" and f2: "Hole \<notin> set (cells ?f)" by simp_all
  have o1: "length (cells ?o) = 9" and o2: "Hole \<notin> set (cells ?o)" by simp_all
  have full: "\<forall>i<9. truthy (getAt ?f (int i))"
    by (simp add: all_less_9 getAt_def isIndex_def)
  have free: "\<exists>i<9. \<not> truthy (getAt ?o (int i))"
    by (simp add: ex_less_9 getAt_def isIndex_def)
  from cpuMove_null_iff_full [OF f1 f2, of 0 mO] full
  have "cpuMove 0 ?f mO = None" by blast
  moreover from cpuMove_null_iff_full [OF o1 o2, of 0 mO] free
  have "\<exists>i. cpuMove 0 ?o mO = Some i" by blast
  ultimately show ?thesis by simp
qed

text \<open>
  C10.  On a board of nine cells, each null or a marker, with at least one free cell, for
  either marker as the player and with \<open>Math.random()\<close> in its range, \<open>cpuMove\<close>
  returns an index between 0 and 8 whose cell is null on the given board.
\<close>

theorem cpuMove_legal:
  assumes len: "length (cells sq) = 9" and nh: "Hole \<notin> set (cells sq)"
      and r: "0 \<le> r" "r < 1" and e: "\<exists>i<9. \<not> truthy (getAt sq (int i))"
  shows "\<exists>i. cpuMove r sq p = Some i \<and> i \<le> 8 \<and> getAt sq (int i) = Null"
proof -
  from e cpuMove_None_iff [OF len nh, of r p] obtain i where i: "cpuMove r sq p = Some i"
    by auto
  from cpuMove_Some_legal [OF len r i] have l: "i < 9" "\<not> truthy (getAt sq (int i))" by simp_all
  then have "getAt sq (int i) = Null"
    using len nh by (simp add: getAt_cell not_truthy_Null)
  with i l show ?thesis by auto
qed

theorem cpuMove_legal_witness:
  "\<exists>i. cpuMove (1 / 2)
     \<lparr>cells = [Val mX, Val mO, Val mX, Val mX, Val mO, Val mO, Val mO, Null, Val mX],
       named = []\<rparr> mX = Some i \<and> i \<le> 8 \<and>
     getAt
     \<lparr>cells = [Val mX, Val mO, Val mX, Val mX, Val mO, Val mO, Val mO, Null, Val mX],
       named = []\<rparr> (int i) = Null"
proof -
  let ?o = "\<lparr>cells = [Val mX, Val mO, Val mX, Val mX, Val mO, Val mO, Val mO, Null, Val mX],
       named = []\<rparr>"
  have o1: "length (cells ?o) = 9" and o2: "Hole \<notin> set (cells ?o)" by simp_all
  have r: "(0::rat) \<le> 1 / 2" "(1 / 2 :: rat) < 1" by simp_all
  have free: "\<exists>i<9. \<not> truthy (getAt ?o (int i))"
    by (simp add: ex_less_9 getAt_def isIndex_def)
  from cpuMove_legal [OF o1 o2 r free, of mX] show ?thesis .
qed

end
